theory Spec2Isabelle
  imports Complex_Main
begin

section \<open>Vectors\<close>

text \<open>
  An embedding is a numpy array of one fixed dimension, modelled as a list of reals.
  The arithmetic is the arithmetic of the real numbers: the rounding of IEEE doubles is
  not modelled. On lists of equal length the operations below are numpy's; numpy raises
  on a shape mismatch, so the theorems speak of histories of one dimension where the
  operation matters, and the sub-scores of the fatigue score, where an exception would
  leave \<^verbatim>\<open>score\<close>, take the operations with numpy's shape checks.
\<close>

type_synonym vec = "real list"

definition vsub :: "vec \<Rightarrow> vec \<Rightarrow> vec" where
  "vsub a b = map2 (-) a b"

definition vadd :: "vec \<Rightarrow> vec \<Rightarrow> vec" where
  "vadd a b = map2 (+) a b"

definition vscale :: "real \<Rightarrow> vec \<Rightarrow> vec" where
  "vscale c a = map ((*) c) a"

definition np_dot :: "vec \<Rightarrow> vec \<Rightarrow> real" where
  "np_dot a b = sum_list (map2 (*) a b)"

definition linalg_norm :: "vec \<Rightarrow> real" where
  "linalg_norm a = sqrt (sum_list (map (\<lambda>x. x * x) a))"

section \<open>Fatigue\<close>

text \<open>
  \<^verbatim>\<open>class Fatigue: def __init__(s,w=5): s.w=w; s.e=[]; s.v=[]\<close>
\<close>

record fatigue =
  fat_w :: nat
  fat_e :: "vec list"
  fat_v :: "vec list"

definition Fatigue_init :: "nat \<Rightarrow> fatigue" where
  "Fatigue_init w = \<lparr>fat_w = w, fat_e = [], fat_v = []\<rparr>"

text \<open>
  \<^verbatim>\<open>
  def update(s,e):
      if s.e: s.v.append(e-s.e[-1])
      if len(s.v)>s.w: s.v.pop(0)
      s.e.append(e)
      if len(s.e)>s.w: s.e.pop(0)
  \<close>
  A list longer than \<open>w\<close> is not empty, so neither \<open>pop(0)\<close> can raise.
\<close>

definition Fatigue_update :: "fatigue \<Rightarrow> vec \<Rightarrow> fatigue" where
  "Fatigue_update s x =
     (let v1 = (if fat_e s \<noteq> [] then fat_v s @ [vsub x (last (fat_e s))] else fat_v s);
          v2 = (if length v1 > fat_w s then tl v1 else v1);
          e1 = fat_e s @ [x];
          e2 = (if length e1 > fat_w s then tl e1 else e1)
      in s\<lparr>fat_e := e2, fat_v := v2\<rparr>)"

definition Fatigue_reset :: "fatigue \<Rightarrow> fatigue" where
  "Fatigue_reset s = s\<lparr>fat_e := [], fat_v := []\<rparr>"

text \<open>The differences of consecutive vectors of a sequence, oldest first.\<close>

fun deltas :: "vec list \<Rightarrow> vec list" where
  "deltas (a # b # r) = vsub b a # deltas (b # r)"
| "deltas _ = []"

text \<open>The last \<open>k\<close> elements of a list.\<close>

definition lastn :: "nat \<Rightarrow> 'a list \<Rightarrow> 'a list" where
  "lastn k xs = drop (length xs - k) xs"

section \<open>Python values\<close>

text \<open>
  An exception that leaves a function is a value \<open>Inl\<close> of the result. The reads
  \<open>xs[-k]\<close> and \<open>d[key]\<close> can raise, numpy's decomposition can, and so can numpy's
  arithmetic on arrays whose shapes do not fit.
\<close>

datatype py_error = IndexError | KeyError | LinAlgError | ValueError

definition index_neg :: "'a list \<Rightarrow> nat \<Rightarrow> py_error + 'a" where
  \<comment> \<open>\<^verbatim>\<open>xs[-k]\<close> for \<open>k \<ge> 1\<close>\<close>
  "index_neg xs k =
     (if 1 \<le> k \<and> k \<le> length xs then Inr (xs ! (length xs - k)) else Inl IndexError)"

text \<open>
  \<^verbatim>\<open>round(x, n)\<close> rounds to \<open>n\<close> decimals, a tie going to the even neighbour.
\<close>

definition round_half_even :: "real \<Rightarrow> int" where
  "round_half_even x =
     (let f = \<lfloor>x\<rfloor>; d = x - of_int f
      in if d < 1/2 then f else if d > 1/2 then f + 1 else if even f then f else f + 1)"

definition py_round :: "real \<Rightarrow> nat \<Rightarrow> real" where
  "py_round x n = of_int (round_half_even (x * 10 ^ n)) / 10 ^ n"

section \<open>Configuration\<close>

text \<open>
  \<^verbatim>\<open>
  THETA_SOFT, THETA_HARD = 0.68, 0.84
  POD_THETA_HIGH, POD_THETA_SOFT = 0.85, 0.50
  \<close>
\<close>

definition THETA_SOFT :: real where "THETA_SOFT = 68/100"
definition THETA_HARD :: real where "THETA_HARD = 84/100"
definition POD_THETA_HIGH :: real where "POD_THETA_HIGH = 85/100"
definition POD_THETA_SOFT :: real where "POD_THETA_SOFT = 50/100"

subsection \<open>The score\<close>

text \<open>
  Inside \<^verbatim>\<open>score\<close> numpy's operations are taken with their shape checks, so that a
  sub-score raises in the model where it raises in the source. \<^verbatim>\<open>np.dot\<close> of two
  one-dimensional arrays raises unless their lengths are equal; \<^verbatim>\<open>a - b\<close> is taken
  elementwise on equal lengths, stretches an operand of length one over the other, and
  raises on any other pair of lengths.
\<close>

definition np_dot_checked :: "vec \<Rightarrow> vec \<Rightarrow> py_error + real" where
  "np_dot_checked a b = (if length a = length b then Inr (np_dot a b) else Inl ValueError)"

definition minus_checked :: "vec \<Rightarrow> vec \<Rightarrow> py_error + vec" where
  "minus_checked a b =
     (if length a = length b then Inr (vsub a b)
      else if length a = 1 then Inr (map (\<lambda>y. hd a - y) b)
      else if length b = 1 then Inr (map (\<lambda>x. x - hd b) a)
      else Inl ValueError)"

text \<open>
  \<^verbatim>\<open>
  def _dp(s):
      if len(s.v)<2: return 0
      a,b=s.v[-2],s.v[-1]; na,nb=np.linalg.norm(a),np.linalg.norm(b)
      return float(np.dot(a,b)/(na*nb)) if na>0 and nb>0 else 0
  \<close>
\<close>

definition Fatigue_dp :: "fatigue \<Rightarrow> py_error + real" where
  "Fatigue_dp s =
     (if length (fat_v s) < 2 then Inr 0
      else case index_neg (fat_v s) 2 of Inl err \<Rightarrow> Inl err | Inr a \<Rightarrow>
           (case index_neg (fat_v s) 1 of Inl err \<Rightarrow> Inl err | Inr b \<Rightarrow>
              (let na = linalg_norm a; nb = linalg_norm b
               in if na > 0 \<and> nb > 0
                  then (case np_dot_checked a b of
                          Inl err \<Rightarrow> Inl err
                        | Inr d \<Rightarrow> Inr (d / (na * nb)))
                  else Inr 0)))"

text \<open>
  \<^verbatim>\<open>
  def _sc(s):
      if len(s.e)<2: return 0
      try:
          _,S,_=np.linalg.svd(np.array(s.e),full_matrices=False)
          t=np.sum(S); return float(np.sum(S[:min(3,len(S))])/t) if t>0 else 0
      except: return 0
  \<close>
  \<open>np.linalg.svd\<close> is numpy's: the model takes it as the parameter \<open>svd\<close>, which gives
  the singular values of the matrix of rows or raises. \<^verbatim>\<open>np.array(s.e)\<close> stands
  inside the same \<^verbatim>\<open>try\<close>, so rows that do not form a matrix are a raising \<open>svd\<close>
  too.
\<close>

definition Fatigue_sc :: "(vec list \<Rightarrow> py_error + real list) \<Rightarrow> fatigue \<Rightarrow> py_error + real" where
  "Fatigue_sc svd s =
     (if length (fat_e s) < 2 then Inr 0
      else case svd (fat_e s) of
             Inl err \<Rightarrow> Inr 0
           | Inr S \<Rightarrow>
               (let t = sum_list S
                in Inr (if t > 0 then sum_list (take (min 3 (length S)) S) / t else 0)))"

text \<open>
  \<^verbatim>\<open>
  def _cc(s):
      if len(s.v)<3: return 0
      a,b,c=s.v[-3],s.v[-2],s.v[-1]
      cr=np.linalg.norm((c-b)-(b-a)); bs=np.linalg.norm(b-a)**3
      return float(1/(cr/bs+1e-8)) if bs>0 else 0
  \<close>
\<close>

definition Fatigue_cc :: "fatigue \<Rightarrow> py_error + real" where
  "Fatigue_cc s =
     (if length (fat_v s) < 3 then Inr 0
      else case index_neg (fat_v s) 3 of Inl err \<Rightarrow> Inl err | Inr a \<Rightarrow>
           (case index_neg (fat_v s) 2 of Inl err \<Rightarrow> Inl err | Inr b \<Rightarrow>
           (case index_neg (fat_v s) 1 of Inl err \<Rightarrow> Inl err | Inr c \<Rightarrow>
           (case minus_checked c b of Inl err \<Rightarrow> Inl err | Inr cb \<Rightarrow>
           (case minus_checked b a of Inl err \<Rightarrow> Inl err | Inr ba \<Rightarrow>
           (case minus_checked cb ba of Inl err \<Rightarrow> Inl err | Inr d2 \<Rightarrow>
              (let cr = linalg_norm d2; bs = linalg_norm ba ^ 3
               in Inr (if bs > 0 then 1 / (cr / bs + 1 / 10 ^ 8) else 0))))))))"

text \<open>
  \<^verbatim>\<open>
  def score(s):
      if len(s.e)<2: return 0,{},"fresh"
      dp=s._dp(); sc=s._sc(); cc=s._cc()
      f=max(0,min(1,.35*dp+.35*sc+.3*cc))
      st="hard" if f>THETA_HARD else "soft" if f>THETA_SOFT else "fresh"
      return round(f,4),{"dp":round(dp,4),"sc":round(sc,4),"cc":round(cc,4)},st
  \<close>
\<close>

type_synonym score_result = "real \<times> (string \<times> real) list \<times> string"

definition Fatigue_score ::
  "(vec list \<Rightarrow> py_error + real list) \<Rightarrow> fatigue \<Rightarrow> py_error + score_result" where
  "Fatigue_score svd s =
     (if length (fat_e s) < 2 then Inr (0, [], ''fresh'')
      else case Fatigue_dp s of Inl err \<Rightarrow> Inl err | Inr dp \<Rightarrow>
           (case Fatigue_sc svd s of Inl err \<Rightarrow> Inl err | Inr sc \<Rightarrow>
           (case Fatigue_cc s of Inl err \<Rightarrow> Inl err | Inr cc \<Rightarrow>
              (let f = max 0 (min 1 (35/100 * dp + 35/100 * sc + 3/10 * cc));
                   st = (if f > THETA_HARD then ''hard''
                         else if f > THETA_SOFT then ''soft'' else ''fresh'')
               in Inr (py_round f 4,
                       [(''dp'', py_round dp 4), (''sc'', py_round sc 4), (''cc'', py_round cc 4)],
                       st)))))"

text \<open>
  The singular values of a matrix whose \<open>n\<close> rows are all one vector \<open>x\<close> of dimension
  \<open>d\<close>: \<open>sqrt n * |x|\<close>, then zeros, \<open>min n d\<close> values in all. It instantiates \<open>svd\<close>
  where a theorem is evaluated on a history of equal embeddings.
\<close>

definition svd_equal_rows :: "vec list \<Rightarrow> py_error + real list" where
  "svd_equal_rows m =
     Inr (sqrt (real (length m)) * linalg_norm (hd m)
          # replicate (min (length m) (length (hd m)) - 1) 0)"

text \<open>Singular values are not negative.\<close>

definition svd_nonneg :: "(vec list \<Rightarrow> py_error + real list) \<Rightarrow> bool" where
  "svd_nonneg svd \<longleftrightarrow> (\<forall>m S. svd m = Inr S \<longrightarrow> (\<forall>x \<in> set S. 0 \<le> x))"

text \<open>All the vectors of both windows have dimension \<open>d\<close>.\<close>

definition fatigue_dim :: "nat \<Rightarrow> fatigue \<Rightarrow> bool" where
  "fatigue_dim d s \<longleftrightarrow> list_all (\<lambda>x. length x = d) (fat_e s) \<and> list_all (\<lambda>x. length x = d) (fat_v s)"

section \<open>PulseEstimator\<close>

text \<open>
  \<^verbatim>\<open>
  def __init__(s):
      s.w_L = 0.45; s.w_M = 0.15; s.w_N = 0.25; s.w_D = 0.15
      s.smoothing = 0.7
      s.tau = 0.5
      s.last_time = None
      s.last_user_emb = None
      s.prev_user_emb = None
  \<close>
\<close>

record pulse =
  w_L :: real
  w_M :: real
  w_N :: real
  w_D :: real
  smoothing :: real
  tau :: real
  last_time :: "real option"
  last_user_emb :: "vec option"
  prev_user_emb :: "vec option"

definition PulseEstimator_init :: pulse where
  "PulseEstimator_init =
     \<lparr>w_L = 45/100, w_M = 15/100, w_N = 25/100, w_D = 15/100, smoothing = 7/10,
      tau = 1/2, last_time = None, last_user_emb = None, prev_user_emb = None\<rparr>"

text \<open>
  The four factors of \<^verbatim>\<open>update(s, msg, emb, timestamp=None)\<close>, in the order of the
  source. \<open>timestamp\<close> is the time after \<^verbatim>\<open>if timestamp is None: timestamp = time.time()\<close>.
\<close>

definition pulse_phi_L :: "pulse \<Rightarrow> real \<Rightarrow> real" where
  "pulse_phi_L s timestamp =
     (case last_time s of
        Some t \<Rightarrow> exp (- (timestamp - t) / 30)
      | None \<Rightarrow> 1/2)"

definition pulse_M_t :: "string \<Rightarrow> real" where
  "pulse_M_t msg = min (real (length msg) / 500) 1"

definition pulse_N_t :: "pulse \<Rightarrow> vec \<Rightarrow> real" where
  "pulse_N_t s emb =
     (case last_user_emb s of
        Some l \<Rightarrow>
          (let na = linalg_norm emb; nb = linalg_norm l
           in if na > 0 \<and> nb > 0 then 1 - max 0 (np_dot emb l / (na * nb)) else 1/2)
      | None \<Rightarrow> 1/2)"

definition pulse_D_t :: "pulse \<Rightarrow> vec \<Rightarrow> real" where
  "pulse_D_t s emb =
     (case (prev_user_emb s, last_user_emb s) of
        (Some p, Some l) \<Rightarrow>
          (let v_prev = vsub l p; v_curr = vsub emb l;
               na = linalg_norm v_prev; nb = linalg_norm v_curr
           in if na > 0 \<and> nb > 0 then 1 - max 0 (np_dot v_prev v_curr / (na * nb)) else 1/2)
      | _ \<Rightarrow> 1/2)"

definition pulse_z :: "pulse \<Rightarrow> string \<Rightarrow> vec \<Rightarrow> real \<Rightarrow> real" where
  "pulse_z s msg emb timestamp =
     w_L s * pulse_phi_L s timestamp + w_M s * pulse_M_t msg
       + w_N s * pulse_N_t s emb + w_D s * pulse_D_t s emb"

text \<open>
  \<^verbatim>\<open>
      raw_tau = 1.0 / (1.0 + np.exp(-z))
      s.tau = s.smoothing * raw_tau + (1.0 - s.smoothing) * s.tau
      s.prev_user_emb = s.last_user_emb
      s.last_user_emb = emb.copy()
      s.last_time = timestamp
      return round(float(s.tau), 4)
  \<close>
  \<open>now\<close> is what \<^verbatim>\<open>time.time()\<close> reads when no timestamp is passed.
\<close>

definition PulseEstimator_update ::
  "pulse \<Rightarrow> real \<Rightarrow> string \<Rightarrow> vec \<Rightarrow> real option \<Rightarrow> pulse \<times> real" where
  "PulseEstimator_update s now msg emb timestamp_arg =
     (let timestamp = (case timestamp_arg of None \<Rightarrow> now | Some t \<Rightarrow> t);
          z = pulse_z s msg emb timestamp;
          raw_tau = 1 / (1 + exp (- z));
          tau' = smoothing s * raw_tau + (1 - smoothing s) * tau s
      in (s\<lparr>tau := tau', prev_user_emb := last_user_emb s,
             last_user_emb := Some emb, last_time := Some timestamp\<rparr>,
          py_round tau' 4))"

text \<open>
  \<^verbatim>\<open>
  def modulate_thresholds(s):
      mod = 1.2 - 0.4 * s.tau
      return (round(min(0.95, THETA_SOFT * mod), 4),
              round(min(0.98, THETA_HARD * mod), 4),
              round(min(0.98, POD_THETA_HIGH * mod), 4),
              round(max(0.30, POD_THETA_SOFT * (2.0 - mod)), 4))
  \<close>
\<close>

definition modulate_thresholds :: "pulse \<Rightarrow> real \<times> real \<times> real \<times> real" where
  "modulate_thresholds s =
     (let md = 12/10 - 4/10 * tau s
      in (py_round (min (95/100) (THETA_SOFT * md)) 4,
          py_round (min (98/100) (THETA_HARD * md)) 4,
          py_round (min (98/100) (POD_THETA_HIGH * md)) 4,
          py_round (max (30/100) (POD_THETA_SOFT * (2 - md))) 4))"

text \<open>
  \<^verbatim>\<open>
  def reset(s):
      s.tau = 0.5; s.last_time = None
      s.last_user_emb = None; s.prev_user_emb = None
  \<close>
\<close>

definition PulseEstimator_reset :: "pulse \<Rightarrow> pulse" where
  "PulseEstimator_reset s =
     s\<lparr>tau := 1/2, last_time := None, last_user_emb := None, prev_user_emb := None\<rparr>"

text \<open>
  A sequence of \<open>update\<close> calls, each with the clock reading, the message, the
  embedding and the timestamp argument; the values returned, oldest first.
\<close>

type_synonym pulse_call = "real \<times> string \<times> vec \<times> real option"

fun PulseEstimator_updates :: "pulse \<Rightarrow> pulse_call list \<Rightarrow> pulse \<times> real list" where
  "PulseEstimator_updates s [] = (s, [])"
| "PulseEstimator_updates s ((now, msg, emb, ts) # cs) =
     (let (s1, r) = PulseEstimator_update s now msg emb ts;
          (s2, rs) = PulseEstimator_updates s1 cs
      in (s2, r # rs))"

text \<open>The timestamp a call takes effect with, and calls in the order of their timestamps.\<close>

definition call_time :: "pulse_call \<Rightarrow> real" where
  "call_time c = (case c of (now, msg, emb, ts) \<Rightarrow> (case ts of None \<Rightarrow> now | Some t \<Rightarrow> t))"

fun ordered_after :: "real option \<Rightarrow> pulse_call list \<Rightarrow> bool" where
  "ordered_after t0 [] = True"
| "ordered_after t0 (c # cs) =
     ((case t0 of None \<Rightarrow> True | Some t \<Rightarrow> t \<le> call_time c)
      \<and> ordered_after (Some (call_time c)) cs)"

section \<open>DirectionTracker\<close>

text \<open>
  \<^verbatim>\<open>
  def __init__(s):
      s.tau_dir = None
      s.base_alpha = 0.85
  \<close>
\<close>

record direction =
  tau_dir :: "vec option"
  base_alpha :: real

definition DirectionTracker_init :: direction where
  "DirectionTracker_init = \<lparr>tau_dir = None, base_alpha = 85/100\<rparr>"

text \<open>
  \<^verbatim>\<open>
  def update(s, user_emb, tau_h):
      if s.tau_dir is None:
          s.tau_dir = user_emb.copy()
          norm = np.linalg.norm(s.tau_dir)
          if norm > 0:
              s.tau_dir = s.tau_dir / norm
          return
      effective_alpha = s.base_alpha + (1 - s.base_alpha) * (1 - tau_h)
      s.tau_dir = effective_alpha * s.tau_dir + (1 - effective_alpha) * user_emb
      norm = np.linalg.norm(s.tau_dir)
      if norm > 0:
          s.tau_dir = s.tau_dir / norm
  \<close>
\<close>

definition normalize_if_positive :: "vec \<Rightarrow> vec" where
  "normalize_if_positive x =
     (let norm_x = linalg_norm x in if norm_x > 0 then map (\<lambda>c. c / norm_x) x else x)"

definition DirectionTracker_update :: "direction \<Rightarrow> vec \<Rightarrow> real \<Rightarrow> direction" where
  "DirectionTracker_update s user_emb tau_h =
     (case tau_dir s of
        None \<Rightarrow> s\<lparr>tau_dir := Some (normalize_if_positive user_emb)\<rparr>
      | Some d \<Rightarrow>
          (let effective_alpha = base_alpha s + (1 - base_alpha s) * (1 - tau_h);
               blended = vadd (vscale effective_alpha d) (vscale (1 - effective_alpha) user_emb)
           in s\<lparr>tau_dir := Some (normalize_if_positive blended)\<rparr>))"

text \<open>A sequence of \<open>update\<close> calls, each with the embedding and the pulse.\<close>

fun DirectionTracker_updates :: "direction \<Rightarrow> (vec \<times> real) list \<Rightarrow> direction" where
  "DirectionTracker_updates s [] = s"
| "DirectionTracker_updates s ((user_emb, tau_h) # us) =
     DirectionTracker_updates (DirectionTracker_update s user_emb tau_h) us"

text \<open>\<^verbatim>\<open>def reset(s): s.tau_dir = None\<close>\<close>

definition DirectionTracker_reset :: "direction \<Rightarrow> direction" where
  "DirectionTracker_reset s = s\<lparr>tau_dir := None\<rparr>"

text \<open>
  \<^verbatim>\<open>
  def modulate_embedding(s, emb, lam=0.3):
      if s.tau_dir is None: return emb
      dot = np.dot(emb, s.tau_dir)
      return emb + lam * dot * s.tau_dir
  \<close>
\<close>

definition modulate_embedding :: "direction \<Rightarrow> vec \<Rightarrow> real \<Rightarrow> vec" where
  "modulate_embedding s emb lam =
     (case tau_dir s of
        None \<Rightarrow> emb
      | Some d \<Rightarrow> vadd emb (vscale (lam * np_dot emb d) d))"

section \<open>Pods\<close>

text \<open>
  \<^verbatim>\<open>s.p[pid]={"emb":get_emb(content),"content":content,"state":"latent"}\<close>

  The dictionary \<open>s.p\<close> is an association list in insertion order, the order in which
  \<^verbatim>\<open>s.p.items()\<close> is walked; its keys are distinct.
\<close>

record pod =
  pod_emb :: vec
  pod_content :: string
  pod_state :: string

type_synonym pods = "(string \<times> pod) list"

definition getitem :: "('k \<times> 'v) list \<Rightarrow> 'k \<Rightarrow> py_error + 'v" where
  \<comment> \<open>\<^verbatim>\<open>d[k]\<close>\<close>
  "getitem d k = (case map_of d k of None \<Rightarrow> Inl KeyError | Some x \<Rightarrow> Inr x)"

definition contains :: "('k \<times> 'v) list \<Rightarrow> 'k \<Rightarrow> bool" where
  \<comment> \<open>\<^verbatim>\<open>k in d\<close>\<close>
  "contains d k \<longleftrightarrow> k \<in> set (map fst d)"

definition setitem :: "('k \<times> 'v) list \<Rightarrow> 'k \<Rightarrow> 'v \<Rightarrow> ('k \<times> 'v) list" where
  \<comment> \<open>\<^verbatim>\<open>d[k] = x\<close>: an old key keeps its place, a new one goes last\<close>
  "setitem d k x =
     (if k \<in> set (map fst d) then map (\<lambda>(k', y). if k' = k then (k', x) else (k', y)) d
      else d @ [(k, x)])"

text \<open>
  \<^verbatim>\<open>
  def unveil(s,pid):
      if pid in s.p: s.p[pid]["state"]="unveiled"; return s.p[pid]["content"]
  \<close>
  Both statements after the colon belong to the \<open>if\<close>; without the key the method falls
  off its end and returns \<open>None\<close>.
\<close>

definition unveil :: "pods \<Rightarrow> string \<Rightarrow> py_error + (pods \<times> string option)" where
  "unveil p pid =
     (if contains p pid then
        (case getitem p pid of
           Inl err \<Rightarrow> Inl err
         | Inr x \<Rightarrow>
             (let p' = setitem p pid (x\<lparr>pod_state := ''unveiled''\<rparr>)
              in case getitem p' pid of
                   Inl err \<Rightarrow> Inl err
                 | Inr y \<Rightarrow> Inr (p', Some (pod_content y))))
      else Inr (p, None))"

text \<open>
  \<^verbatim>\<open>
  def _detect_pod_adaptive(s, emb, f_score, pod_high, pod_soft):
      best = None
      for k, v in s.pods.p.items():
          if v["state"] != "latent": continue
          e = v["emb"]; ne = np.linalg.norm(e); nemb = np.linalg.norm(emb)
          if ne == 0 or nemb == 0: continue
          sim = float(np.dot(emb, e) / (nemb * ne))
          if sim > pod_high or (f_score > THETA_HARD and sim > pod_soft):
              if not best or sim > best[1]:
                  best = (k, sim, v["content"])
      return best
  \<close>
\<close>

type_synonym match = "string \<times> real \<times> string"

definition detect_step ::
  "vec \<Rightarrow> real \<Rightarrow> real \<Rightarrow> real \<Rightarrow> match option \<Rightarrow> string \<times> pod \<Rightarrow> match option" where
  "detect_step emb f_score pod_high pod_soft best kv =
     (case kv of (k, x) \<Rightarrow>
        if pod_state x \<noteq> ''latent'' then best
        else let e = pod_emb x; ne = linalg_norm e; nemb = linalg_norm emb
             in if ne = 0 \<or> nemb = 0 then best
                else let sim = np_dot emb e / (nemb * ne)
                     in if sim > pod_high \<or> (f_score > THETA_HARD \<and> sim > pod_soft)
                        then (case best of
                                None \<Rightarrow> Some (k, sim, pod_content x)
                              | Some (bk, bsim, bc) \<Rightarrow>
                                  if sim > bsim then Some (k, sim, pod_content x) else best)
                        else best)"

definition detect_pod_adaptive ::
  "pods \<Rightarrow> vec \<Rightarrow> real \<Rightarrow> real \<Rightarrow> real \<Rightarrow> match option" where
  "detect_pod_adaptive p emb f_score pod_high pod_soft =
     foldl (detect_step emb f_score pod_high pod_soft) None p"

text \<open>
  The detection as the specification words it, with the hard threshold passed in:
  a pod matches if its similarity exceeds \<open>podHigh\<close>, or the fatigue score exceeds the
  passed \<open>hard\<close> threshold and the similarity exceeds \<open>podSoft\<close>.
\<close>

definition spec_detect_step ::
  "vec \<Rightarrow> real \<Rightarrow> real \<Rightarrow> real \<Rightarrow> real \<Rightarrow> match option \<Rightarrow> string \<times> pod \<Rightarrow> match option" where
  "spec_detect_step emb f_score pod_high pod_soft hard best kv =
     (case kv of (k, x) \<Rightarrow>
        if pod_state x \<noteq> ''latent'' then best
        else let e = pod_emb x; ne = linalg_norm e; nemb = linalg_norm emb
             in if ne = 0 \<or> nemb = 0 then best
                else let sim = np_dot emb e / (nemb * ne)
                     in if sim > pod_high \<or> (f_score > hard \<and> sim > pod_soft)
                        then (case best of
                                None \<Rightarrow> Some (k, sim, pod_content x)
                              | Some (bk, bsim, bc) \<Rightarrow>
                                  if sim > bsim then Some (k, sim, pod_content x) else best)
                        else best)"

definition spec_detect ::
  "pods \<Rightarrow> vec \<Rightarrow> real \<Rightarrow> real \<Rightarrow> real \<Rightarrow> real \<Rightarrow> match option" where
  "spec_detect p emb f_score pod_high pod_soft hard =
     foldl (spec_detect_step emb f_score pod_high pod_soft hard) None p"

text \<open>
  The status \<^verbatim>\<open>Vessel.speak\<close> derives from the score and the modulated thresholds:
  \<^verbatim>\<open>f_status = "hard" if f_score > theta_hard else "soft" if f_score > theta_soft else "fresh"\<close>
\<close>

definition speak_f_status :: "real \<Rightarrow> real \<Rightarrow> real \<Rightarrow> string" where
  "speak_f_status f_score theta_soft theta_hard =
     (if f_score > theta_hard then ''hard''
      else if f_score > theta_soft then ''soft'' else ''fresh'')"

section \<open>RhythmStore\<close>

text \<open>
  A sample as \<^verbatim>\<open>record\<close> appends it:
  \<^verbatim>\<open>
  s.samples.append({"turn": turn, "ts": time.time(), "tau_h": round(tau_h, 4),
      "fatigue": round(fatigue, 4), "fatigue_status": status,
      "components": {k: round(v, 4) for k, v in components.items()},
      "thresholds": {k: round(v, 4) for k, v in thresholds.items()},
      "events": events or []})
  \<close>
\<close>

record sample =
  sm_turn :: int
  sm_ts :: real
  sm_tau_h :: real
  sm_fatigue :: real
  sm_fatigue_status :: string
  sm_components :: "(string \<times> real) list"
  sm_thresholds :: "(string \<times> real) list"
  sm_events :: "string list"

definition RhythmStore_record ::
  "sample list \<Rightarrow> real \<Rightarrow> int \<Rightarrow> real \<Rightarrow> real \<Rightarrow> string \<Rightarrow> (string \<times> real) list
     \<Rightarrow> (string \<times> real) list \<Rightarrow> string list option \<Rightarrow> sample list" where
  "RhythmStore_record samples now turn tau_h fatigue status components thresholds events =
     samples @
     [\<lparr>sm_turn = turn, sm_ts = now, sm_tau_h = py_round tau_h 4,
       sm_fatigue = py_round fatigue 4, sm_fatigue_status = status,
       sm_components = map (\<lambda>(k, x). (k, py_round x 4)) components,
       sm_thresholds = map (\<lambda>(k, x). (k, py_round x 4)) thresholds,
       sm_events = (case events of None \<Rightarrow> [] | Some evs \<Rightarrow> evs)\<rparr>]"

text \<open>
  A breathing event is a dictionary with the keys \<open>turn\<close> and \<open>type\<close> and, by its
  type, \<open>tau_h_delta\<close> or \<open>F_t\<close>.
\<close>

record breathing_event =
  ev_turn :: int
  ev_type :: string
  ev_tau_h_delta :: "real option"
  ev_F_t :: "real option"

text \<open>
  The body of \<^verbatim>\<open>for i in range(1, len(s.samples))\<close> for the pair
  \<open>prev = samples[i-1]\<close>, \<open>cur = samples[i]\<close>:
  \<^verbatim>\<open>
      delta_tau = s.samples[i]["tau_h"] - s.samples[i-1]["tau_h"]
      if delta_tau < -0.15: ... "type": "pause", "tau_h_delta": round(delta_tau, 3)
      elif delta_tau > 0.15: ... "type": "acceleration", "tau_h_delta": round(delta_tau, 3)
      if (s.samples[i]["fatigue_status"] == "soft" and
          s.samples[i-1]["fatigue_status"] == "fresh"): ... "type": "soft_fatigue_onset"
      elif (s.samples[i]["fatigue_status"] == "hard" and
            s.samples[i-1]["fatigue_status"] != "hard"): ... "type": "hard_fatigue_onset"
      for ev in s.samples[i].get("events", []):
          breathing_events.append({"turn": s.samples[i]["turn"], "type": ev})
  \<close>
\<close>

definition pair_events :: "sample \<Rightarrow> sample \<Rightarrow> breathing_event list" where
  "pair_events prev cur =
     (let delta_tau = sm_tau_h cur - sm_tau_h prev
      in (if delta_tau < - (15/100)
          then [\<lparr>ev_turn = sm_turn cur, ev_type = ''pause'',
                 ev_tau_h_delta = Some (py_round delta_tau 3), ev_F_t = None\<rparr>]
          else if delta_tau > 15/100
          then [\<lparr>ev_turn = sm_turn cur, ev_type = ''acceleration'',
                 ev_tau_h_delta = Some (py_round delta_tau 3), ev_F_t = None\<rparr>]
          else [])
       @ (if sm_fatigue_status cur = ''soft'' \<and> sm_fatigue_status prev = ''fresh''
          then [\<lparr>ev_turn = sm_turn cur, ev_type = ''soft_fatigue_onset'',
                 ev_tau_h_delta = None, ev_F_t = Some (sm_fatigue cur)\<rparr>]
          else if sm_fatigue_status cur = ''hard'' \<and> sm_fatigue_status prev \<noteq> ''hard''
          then [\<lparr>ev_turn = sm_turn cur, ev_type = ''hard_fatigue_onset'',
                 ev_tau_h_delta = None, ev_F_t = Some (sm_fatigue cur)\<rparr>]
          else [])
       @ map (\<lambda>ev. \<lparr>ev_turn = sm_turn cur, ev_type = ev,
                     ev_tau_h_delta = None, ev_F_t = None\<rparr>) (sm_events cur))"

fun breathing_events :: "sample list \<Rightarrow> breathing_event list" where
  "breathing_events (prev # cur # rest) = pair_events prev cur @ breathing_events (cur # rest)"
| "breathing_events _ = []"

text \<open>
  The breathing events as the specification words them: the events of the consecutive
  pairs, and the tagged events of each sample, the first one's too.
\<close>

definition tagged_events :: "sample \<Rightarrow> breathing_event list" where
  "tagged_events sm =
     map (\<lambda>ev. \<lparr>ev_turn = sm_turn sm, ev_type = ev,
                 ev_tau_h_delta = None, ev_F_t = None\<rparr>) (sm_events sm)"

definition spec_breathing_events :: "sample list \<Rightarrow> breathing_event list" where
  "spec_breathing_events samples =
     (case samples of [] \<Rightarrow> [] | first # rest \<Rightarrow> tagged_events first @ breathing_events samples)"

text \<open>
  \<^verbatim>\<open>
  def compute_signature(s):
      if not s.samples:
          return {"dominant_rhythm": "empty", "mean_tau_h": 0, "curvature_integral": 0}
      taus = [sm["tau_h"] for sm in s.samples]
      fatigues = [sm["fatigue"] for sm in s.samples]
      mean_tau = sum(taus) / len(taus)
      tau_var = sum((t - mean_tau)**2 for t in taus) / len(taus) if len(taus) > 1 else 0
      mean_f = sum(fatigues) / len(fatigues)
      peak_f = max(fatigues)
      mid = len(fatigues) // 2
      if mid > 0 and len(fatigues) > mid:
          first_half = sum(fatigues[:mid]) / mid
          second_half = sum(fatigues[mid:]) / (len(fatigues) - mid)
          if second_half > first_half + 0.05: f_trend = "rising"
          elif first_half > second_half + 0.05: f_trend = "falling"
          else: f_trend = "stable"
      else: f_trend = "stable"
      ...
      curvature = sum(abs(taus[i] - taus[i-1]) for i in range(1, len(taus)))
      if mean_tau < 0.4 and tau_var < 0.02: dominant = "reflective"
      elif mean_tau > 0.65: dominant = "exploratory"
      elif tau_var > 0.03: dominant = "reflective_with_burst"
      elif f_trend == "rising" and peak_f > THETA_SOFT: dominant = "fatiguing"
      elif f_trend == "falling": dominant = "recovered"
      else: dominant = "steady"
  \<close>
\<close>

definition mean_tau :: "sample list \<Rightarrow> real" where
  "mean_tau samples = sum_list (map sm_tau_h samples) / real (length samples)"

definition tau_var :: "sample list \<Rightarrow> real" where
  "tau_var samples =
     (if length samples > 1
      then sum_list (map (\<lambda>t. (t - mean_tau samples) ^ 2) (map sm_tau_h samples))
             / real (length samples)
      else 0)"

definition peak_f :: "sample list \<Rightarrow> real" where
  "peak_f samples =
     (case map sm_fatigue samples of [] \<Rightarrow> 0 | x # xs \<Rightarrow> foldl max x xs)"

definition f_trend :: "sample list \<Rightarrow> string" where
  "f_trend samples =
     (let fatigues = map sm_fatigue samples; mid = length fatigues div 2
      in if mid > 0 \<and> length fatigues > mid
         then (let first_half = sum_list (take mid fatigues) / real mid;
                   second_half = sum_list (drop mid fatigues) / real (length fatigues - mid)
               in if second_half > first_half + 5/100 then ''rising''
                  else if first_half > second_half + 5/100 then ''falling''
                  else ''stable'')
         else ''stable'')"

fun curvature :: "real list \<Rightarrow> real" where
  "curvature (a # b # r) = \<bar>b - a\<bar> + curvature (b # r)"
| "curvature _ = 0"

definition dominant_rhythm :: "sample list \<Rightarrow> string" where
  "dominant_rhythm samples =
     (if mean_tau samples < 4/10 \<and> tau_var samples < 2/100 then ''reflective''
      else if mean_tau samples > 65/100 then ''exploratory''
      else if tau_var samples > 3/100 then ''reflective_with_burst''
      else if f_trend samples = ''rising'' \<and> peak_f samples > THETA_SOFT then ''fatiguing''
      else if f_trend samples = ''falling'' then ''recovered''
      else ''steady'')"

record signature =
  sig_mean_tau_h :: real
  sig_tau_h_variance :: real
  sig_mean_fatigue :: real
  sig_peak_fatigue :: real
  sig_fatigue_trend :: string
  sig_breathing_events :: "breathing_event list"
  sig_dominant_rhythm :: string
  sig_curvature_integral :: real

datatype signature_result = Empty_signature | Full_signature signature

definition compute_signature :: "sample list \<Rightarrow> signature_result" where
  "compute_signature samples =
     (if samples = [] then Empty_signature
      else Full_signature
        \<lparr>sig_mean_tau_h = py_round (mean_tau samples) 4,
         sig_tau_h_variance = py_round (tau_var samples) 4,
         sig_mean_fatigue =
           py_round (sum_list (map sm_fatigue samples) / real (length samples)) 4,
         sig_peak_fatigue = py_round (peak_f samples) 4,
         sig_fatigue_trend = f_trend samples,
         sig_breathing_events = breathing_events samples,
         sig_dominant_rhythm = dominant_rhythm samples,
         sig_curvature_integral = py_round (curvature (map sm_tau_h samples)) 4\<rparr>)"

text \<open>
  The samples of a session whose pulse values are the values a sequence of
  \<open>PulseEstimator.update\<close> calls returned: \<^verbatim>\<open>Vessel.speak\<close> passes each
  \<open>tau_h\<close> on to \<^verbatim>\<open>record\<close>, which rounds it to four decimals again.
\<close>

definition live_samples :: "real list \<Rightarrow> sample list \<Rightarrow> bool" where
  "live_samples taus samples \<longleftrightarrow> map sm_tau_h samples = map (\<lambda>t. py_round t 4) taus"


text \<open>
  What the comments of \<^verbatim>\<open>update\<close> expect of one call in the state \<open>s\<close>: each of the
  four factors is between 0 and 1, so is their weighted sum \<open>z\<close>, and the raw pulse is
  between a half and the sigmoid of one.
\<close>

definition factors_unit :: "pulse \<Rightarrow> pulse_call \<Rightarrow> bool" where
  "factors_unit s c =
     (case c of (now, msg, emb, ts) \<Rightarrow>
        (let t = call_time c; z = pulse_z s msg emb t; raw_tau = 1 / (1 + exp (- z))
         in 0 \<le> pulse_phi_L s t \<and> pulse_phi_L s t \<le> 1
          \<and> 0 \<le> pulse_M_t msg \<and> pulse_M_t msg \<le> 1
          \<and> 0 \<le> pulse_N_t s emb \<and> pulse_N_t s emb \<le> 1
          \<and> 0 \<le> pulse_D_t s emb \<and> pulse_D_t s emb \<le> 1
          \<and> 0 \<le> z \<and> z \<le> 1
          \<and> 1/2 \<le> raw_tau \<and> raw_tau \<le> 1 / (1 + exp (- 1))))"

text \<open>The same of every call of a sequence, each in the state the calls before it left.\<close>

fun every_step :: "pulse \<Rightarrow> pulse_call list \<Rightarrow> bool" where
  "every_step s [] = True"
| "every_step s ((now, msg, emb, ts) # cs) =
     (factors_unit s (now, msg, emb, ts)
      \<and> every_step (fst (PulseEstimator_update s now msg emb ts)) cs)"

text \<open>
  An estimator with the weights of the constructor whose pulse is between a half and the
  sigmoid of one.
\<close>

definition pulse_live :: "pulse \<Rightarrow> bool" where
  "pulse_live s \<longleftrightarrow>
     w_L s = 45/100 \<and> w_M s = 15/100 \<and> w_N s = 25/100 \<and> w_D s = 15/100
     \<and> smoothing s = 7/10 \<and> 1/2 \<le> tau s \<and> tau s \<le> 1 / (1 + exp (- 1))"
section \<open>The two windows of the fatigue scorer\<close>

lemma deltas_snoc:
  "xs \<noteq> [] \<Longrightarrow> deltas (xs @ [x]) = deltas xs @ [vsub x (last xs)]"
  by (induction xs rule: deltas.induct) simp_all

lemma length_deltas: "length (deltas xs) = length xs - 1"
  by (induction xs rule: deltas.induct) auto

lemma deltas_drop: "deltas (drop k xs) = drop k (deltas xs)"
proof (induction xs arbitrary: k rule: deltas.induct)
  case (1 a b r)
  show ?case
  proof (cases k)
    case 0
    then show ?thesis by simp
  next
    case (Suc j)
    with 1 [of j] show ?thesis by simp
  qed
qed (simp_all add: drop_Cons split: nat.splits)

lemma lastn_snoc:
  "(if length (lastn w xs @ [x]) > w then tl (lastn w xs @ [x]) else lastn w xs @ [x])
     = lastn w (xs @ [x])"
proof (cases "length xs < w")
  case True
  then show ?thesis by (simp add: lastn_def)
next
  case False
  then have "length xs - w < length xs \<or> w = 0" by arith
  then show ?thesis
  proof
    assume lt: "length xs - w < length xs"
    from lt have "drop (length xs - w) xs \<noteq> []" by simp
    then have "tl (drop (length xs - w) xs @ [x]) = drop (Suc (length xs - w)) xs @ [x]"
      by (simp add: drop_Suc tl_drop)
    moreover have "Suc (length xs) - w = Suc (length xs - w)"
      using False by arith
    ultimately show ?thesis using False lt by (simp add: lastn_def)
  next
    assume "w = 0"
    then show ?thesis by (simp add: lastn_def)
  qed
qed

lemma last_lastn: "xs \<noteq> [] \<Longrightarrow> 0 < w \<Longrightarrow> last (lastn w xs) = last xs"
  by (simp add: lastn_def)

lemma lastn_Nil_iff: "0 < w \<Longrightarrow> lastn w xs = [] \<longleftrightarrow> xs = []"
  by (cases xs) (auto simp: lastn_def)

lemma Fatigue_updates_windows:
  assumes "0 < fat_w s0" and "fat_e s0 = []" and "fat_v s0 = []"
  shows "fat_w (foldl Fatigue_update s0 xs) = fat_w s0
       \<and> fat_e (foldl Fatigue_update s0 xs) = lastn (fat_w s0) xs
       \<and> fat_v (foldl Fatigue_update s0 xs) = lastn (fat_w s0) (deltas xs)"
proof (induction xs rule: rev_induct)
  case Nil
  from assms show ?case by (simp add: lastn_def)
next
  case (snoc x xs)
  let ?s = "foldl Fatigue_update s0 xs"
  let ?w = "fat_w s0"
  from snoc have w: "fat_w ?s = ?w" and e: "fat_e ?s = lastn ?w xs"
    and v: "fat_v ?s = lastn ?w (deltas xs)" by simp_all
  have E: "fat_e (Fatigue_update ?s x) = lastn ?w (xs @ [x])"
    using lastn_snoc [of ?w xs x] by (simp add: Fatigue_update_def Let_def w e)
  have V: "fat_v (Fatigue_update ?s x) = lastn ?w (deltas (xs @ [x]))"
  proof (cases "xs = []")
    case True
    with assms show ?thesis by (simp add: Fatigue_update_def Let_def lastn_def)
  next
    case False
    then have ne: "lastn ?w xs \<noteq> []" using assms(1) by (simp add: lastn_Nil_iff)
    have la: "last (lastn ?w xs) = last xs" using False assms(1) by (rule last_lastn)
    show ?thesis
      using lastn_snoc [of ?w "deltas xs" "vsub x (last xs)"] ne la
      by (simp add: Fatigue_update_def Let_def w e v deltas_snoc [OF False])
  qed
  have W: "fat_w (Fatigue_update ?s x) = ?w"
    by (simp add: Fatigue_update_def Let_def w)
  from E V W show ?case by simp
qed

subsection \<open>The window invariant\<close>

lemma length_lastn: "length (lastn k xs) = min k (length xs)"
  by (simp add: lastn_def)

lemma lastn_lastn_deltas:
  "lastn (length (lastn w xs) - 1) (lastn w (deltas xs)) = deltas (lastn w xs)"
proof -
  let ?n = "length xs"
  have R: "deltas (lastn w xs) = drop (?n - w) (deltas xs)"
    by (simp add: lastn_def deltas_drop)
  consider "?n \<le> w" | "w < ?n" "0 < w" | "w = 0" by arith
  then show ?thesis
  proof cases
    case 1
    then show ?thesis by (simp add: lastn_def length_deltas)
  next
    case 2
    have len1: "length (lastn w xs) - 1 = w - 1"
      using 2 by (simp add: lastn_def)
    have len2: "length (lastn w (deltas xs)) = w"
      using 2 by (simp add: lastn_def length_deltas)
    have "lastn (w - 1) (lastn w (deltas xs)) = drop 1 (lastn w (deltas xs))"
      unfolding lastn_def [of "w - 1"] len2 using 2 by simp
    also have "\<dots> = drop (1 + (?n - 1 - w)) (deltas xs)"
      by (simp add: lastn_def length_deltas)
    also have "1 + (?n - 1 - w) = ?n - w" using 2 by arith
    finally show ?thesis using R len1 by simp
  next
    case 3
    then show ?thesis by (simp add: lastn_def)
  qed
qed

text \<open>
  C3 (as amended). After any sequence \<open>xs\<close> of \<open>update\<close> calls on a new scorer of
  window 5, or on one that was reset, the embedding window holds the last five
  embeddings and the velocity window the last five differences of consecutive
  embeddings of the whole sequence. So both are capped at 5, and the velocity window is
  one shorter than the embedding window up to the fifth update and of the same length
  from the sixth on; its last \<open>len(e) - 1\<close> entries are the differences of the
  consecutive stored embeddings.
\<close>

theorem Fatigue_windows_after_updates:
  assumes "s0 = Fatigue_init 5 \<or> s0 = Fatigue_reset t \<and> fat_w t = 5"
    and "s = foldl Fatigue_update s0 xs"
  shows "length (fat_e s) = min 5 (length xs)
       \<and> length (fat_v s) = min 5 (length xs - 1)
       \<and> fat_e s = lastn 5 xs
       \<and> fat_v s = lastn 5 (deltas xs)
       \<and> lastn (length (fat_e s) - 1) (fat_v s) = deltas (fat_e s)
       \<and> (length xs \<le> 5 \<longrightarrow> length (fat_v s) = length (fat_e s) - 1)
       \<and> (length xs > 5 \<longrightarrow> length (fat_v s) = length (fat_e s))"
proof -
  from assms(1) have s0: "0 < fat_w s0" "fat_w s0 = 5" "fat_e s0 = []" "fat_v s0 = []"
    by (auto simp: Fatigue_init_def Fatigue_reset_def)
  from Fatigue_updates_windows [OF s0(1) s0(3) s0(4), of xs] assms(2) s0(2)
  have e: "fat_e s = lastn 5 xs" and v: "fat_v s = lastn 5 (deltas xs)" by simp_all
  show ?thesis
    unfolding e v using lastn_lastn_deltas [of 5 xs]
    by (simp add: length_lastn length_deltas) 
qed

theorem Fatigue_windows_after_updates_witness:
  "length (fat_e (foldl Fatigue_update (Fatigue_init 5) [[0],[1],[2],[3],[4],[5],[7]])) = 5
   \<and> fat_v (foldl Fatigue_update (Fatigue_init 5) [[0],[1],[2],[3],[4],[5],[7]]) = [[1],[1],[1],[1],[2]]
   \<and> fat_e (foldl Fatigue_update (Fatigue_init 5) [[0],[1],[2],[3],[4],[5],[7]]) = [[2],[3],[4],[5],[7]]"
  using Fatigue_windows_after_updates [of "Fatigue_init 5" "Fatigue_init 5" "foldl Fatigue_update (Fatigue_init 5) [[0],[1],[2],[3],[4],[5],[7]]" "[[0],[1],[2],[3],[4],[5],[7]]"]
  by (simp add: lastn_def vsub_def)

text \<open>
  C3 as stated fails at the sixth update: the velocity window then holds five
  differences and the embedding window five embeddings.
\<close>

theorem Fatigue_window_invariant_counterexample:
  "length (fat_v (foldl Fatigue_update (Fatigue_init 5) [[0],[1],[2],[3],[4],[5]]))
     \<noteq> max 0 (length (fat_e (foldl Fatigue_update (Fatigue_init 5) [[0],[1],[2],[3],[4],[5]])) - 1)"
  by (simp add: Fatigue_update_def Fatigue_init_def Let_def vsub_def)

section \<open>Reset\<close>

lemma Fatigue_update_w: "fat_w (Fatigue_update s x) = fat_w s"
  by (simp add: Fatigue_update_def Let_def)

lemma Fatigue_updates_w: "fat_w (foldl Fatigue_update s xs) = fat_w s"
  by (induction xs arbitrary: s) (simp_all add: Fatigue_update_w)

lemma PulseEstimator_update_weights:
  "PulseEstimator_update s now msg emb ts = (s', r) \<Longrightarrow>
     w_L s' = w_L s \<and> w_M s' = w_M s \<and> w_N s' = w_N s \<and> w_D s' = w_D s
     \<and> smoothing s' = smoothing s"
  by (auto simp: PulseEstimator_update_def Let_def)

lemma PulseEstimator_updates_weights:
  "PulseEstimator_updates s cs = (s', rs) \<Longrightarrow>
     w_L s' = w_L s \<and> w_M s' = w_M s \<and> w_N s' = w_N s \<and> w_D s' = w_D s
     \<and> smoothing s' = smoothing s"
proof (induction s cs arbitrary: s' rs rule: PulseEstimator_updates.induct)
  case (1 s)
  then show ?case by simp
next
  case (2 s now msg emb ts cs)
  obtain s1 r where u: "PulseEstimator_update s now msg emb ts = (s1, r)"
    by (cases "PulseEstimator_update s now msg emb ts")
  obtain s2 rs2 where v: "PulseEstimator_updates s1 cs = (s2, rs2)"
    by (cases "PulseEstimator_updates s1 cs")
  from "2.prems" u v have "s' = s2" by simp
  with "2.IH" [OF u [symmetric] refl v] PulseEstimator_update_weights [OF u]
  show ?case by simp
qed

lemma DirectionTracker_update_alpha:
  "base_alpha (DirectionTracker_update s e t) = base_alpha s"
  by (simp add: DirectionTracker_update_def Let_def split: option.splits)

lemma DirectionTracker_updates_alpha:
  "base_alpha (DirectionTracker_updates s us) = base_alpha s"
  by (induction s us rule: DirectionTracker_updates.induct)
     (simp_all add: DirectionTracker_update_alpha)

text \<open>
  C8. After any sequence of updates, \<open>reset\<close> gives each of the three components the
  state of a new instance: the fatigue scorer (of the same window) has empty histories,
  the pulse estimator has pulse 0.5 and no timestamp or embeddings, the direction
  tracker has no direction; the constants set by the constructor are never changed.
\<close>

theorem reset_restores_fresh_state:
  "Fatigue_reset (foldl Fatigue_update (Fatigue_init w) xs) = Fatigue_init w
   \<and> PulseEstimator_reset (fst (PulseEstimator_updates PulseEstimator_init cs)) = PulseEstimator_init
   \<and> DirectionTracker_reset (DirectionTracker_updates DirectionTracker_init us) = DirectionTracker_init"
proof (intro conjI)
  show "Fatigue_reset (foldl Fatigue_update (Fatigue_init w) xs) = Fatigue_init w"
    using Fatigue_updates_w [of "Fatigue_init w" xs]
    by (simp add: Fatigue_reset_def Fatigue_init_def)
next
  obtain s' rs where u: "PulseEstimator_updates PulseEstimator_init cs = (s', rs)"
    by (cases "PulseEstimator_updates PulseEstimator_init cs")
  from PulseEstimator_updates_weights [OF u]
  have "PulseEstimator_reset s' = PulseEstimator_init"
    by (cases s') (simp add: PulseEstimator_reset_def PulseEstimator_init_def)
  then show "PulseEstimator_reset (fst (PulseEstimator_updates PulseEstimator_init cs)) = PulseEstimator_init"
    by (simp add: u)
next
  show "DirectionTracker_reset (DirectionTracker_updates DirectionTracker_init us) = DirectionTracker_init"
    using DirectionTracker_updates_alpha [of DirectionTracker_init us]
    by (simp add: DirectionTracker_reset_def DirectionTracker_init_def)
qed

theorem reset_restores_fresh_state_witness:
  "Fatigue_reset (foldl Fatigue_update (Fatigue_init 5) [[1, 0], [0, 1]]) = Fatigue_init 5
   \<and> PulseEstimator_reset (fst (PulseEstimator_updates PulseEstimator_init
        [(0, ''hello'', [1, 0], Some 10), (0, ''again'', [0, 1], None)])) = PulseEstimator_init
   \<and> DirectionTracker_reset (DirectionTracker_updates DirectionTracker_init
        [([1, 0], 1/2), ([0, 1], 6/10)]) = DirectionTracker_init"
  by (rule reset_restores_fresh_state)

section \<open>Unveiling a pod\<close>

lemma contains_getitem: "contains p k \<Longrightarrow> \<exists>x. getitem p k = Inr x"
proof -
  assume "contains p k"
  then have "map_of p k \<noteq> None"
    by (simp add: contains_def map_of_eq_None_iff)
  then show ?thesis by (auto simp: getitem_def)
qed

lemma keys_replace:
  "map fst (map (\<lambda>(k', y). if k' = k then (k', x) else (k', y)) p) = map fst p"
  by (induction p) (auto split: prod.splits)

lemma map_of_replace_same:
  "k \<in> fst ` set p \<Longrightarrow>
     map_of (map (\<lambda>(k', y). if k' = k then (k', x) else (k', y)) p) k = Some x"
  by (induction p) auto

lemma map_of_replace_other:
  "k' \<noteq> k \<Longrightarrow>
     map_of (map (\<lambda>(k', y). if k' = k then (k', x) else (k', y)) p) k' = map_of p k'"
  by (induction p) auto

lemma replace_twice:
  "map (\<lambda>(k', y). if k' = k then (k', x) else (k', y))
     (map (\<lambda>(k', y). if k' = k then (k', x) else (k', y)) p)
   = map (\<lambda>(k', y). if k' = k then (k', x) else (k', y)) p"
  by (induction p) (auto split: prod.splits)

lemma keys_setitem: "contains p k \<Longrightarrow> map fst (setitem p k x) = map fst p"
  unfolding setitem_def contains_def by (simp only: keys_replace if_True)

lemma map_of_setitem_same: "contains p k \<Longrightarrow> map_of (setitem p k x) k = Some x"
  by (simp add: setitem_def contains_def map_of_replace_same)

lemma map_of_setitem_other:
  "contains p k \<Longrightarrow> k' \<noteq> k \<Longrightarrow> map_of (setitem p k x) k' = map_of p k'"
  by (simp add: setitem_def contains_def map_of_replace_other)

lemma setitem_twice: "contains p k \<Longrightarrow> setitem (setitem p k x) k x = setitem p k x"
proof -
  assume c: "contains p k"
  have "map fst (setitem p k x) = map fst p" by (rule keys_setitem [OF c])
  then have "k \<in> set (map fst (setitem p k x))" using c by (simp add: contains_def)
  then have "setitem (setitem p k x) k x
      = map (\<lambda>(k', y). if k' = k then (k', x) else (k', y)) (setitem p k x)"
    by (simp add: setitem_def [of "setitem p k x"])
  also have "\<dots> = setitem p k x"
    using c unfolding setitem_def contains_def by (simp only: replace_twice if_True)
  finally show ?thesis .
qed

lemma unveil_known:
  assumes "contains p pid" and "getitem p pid = Inr x"
  shows "unveil p pid =
           Inr (setitem p pid (x\<lparr>pod_state := ''unveiled''\<rparr>), Some (pod_content x))"
  using assms map_of_setitem_same [OF assms(1), of "x\<lparr>pod_state := ''unveiled''\<rparr>"]
  by (simp add: unveil_def Let_def getitem_def)

lemma unveil_unknown: "\<not> contains p pid \<Longrightarrow> unveil p pid = Inr (p, None)"
  by (simp add: unveil_def)

text \<open>
  C9. \<open>unveil\<close> never raises. For a known id it sets the state of that pod to
  \<open>unveiled\<close>, whatever it was, and returns its content; every other pod and the order
  of the pods are unchanged. For an unknown id it changes nothing and returns \<open>None\<close>.
  A second call with the same id returns the same and leaves the state of the first.
\<close>

theorem unveil_idempotent_total:
  "\<exists>p' r. unveil p pid = Inr (p', r)
      \<and> unveil p' pid = Inr (p', r)
      \<and> (\<not> contains p pid \<longrightarrow> p' = p \<and> r = None)
      \<and> (\<forall>x. getitem p pid = Inr x \<longrightarrow>
            getitem p' pid = Inr (x\<lparr>pod_state := ''unveiled''\<rparr>) \<and> r = Some (pod_content x))
      \<and> (\<forall>k. k \<noteq> pid \<longrightarrow> getitem p' k = getitem p k)
      \<and> map fst p' = map fst p"
proof (cases "contains p pid")
  case False
  then have "map_of p pid = None"
    by (simp add: contains_def map_of_eq_None_iff)
  then have g: "getitem p pid = Inl KeyError"
    by (simp add: getitem_def)
  have u: "unveil p pid = Inr (p, None)" by (rule unveil_unknown [OF False])
  show ?thesis
  proof (intro exI conjI)
    show "unveil p pid = Inr (p, None)" by (rule u)
    show "unveil p pid = Inr (p, None)" by (rule u)
    show "\<not> contains p pid \<longrightarrow> p = p \<and> (None :: string option) = None" by simp
    show "\<forall>x. getitem p pid = Inr x \<longrightarrow>
            getitem p pid = Inr (x\<lparr>pod_state := ''unveiled''\<rparr>) \<and> None = Some (pod_content x)"
      by (simp add: g)
    show "\<forall>k. k \<noteq> pid \<longrightarrow> getitem p k = getitem p k" by simp
    show "map fst p = map fst p" by (rule refl)
  qed
next
  case True
  from contains_getitem [OF True] obtain x where x: "getitem p pid = Inr x" by (rule exE)
  let ?x = "x\<lparr>pod_state := ''unveiled''\<rparr>"
  let ?p = "setitem p pid ?x"
  let ?r = "Some (pod_content x)"
  have m: "map fst ?p = map fst p" by (rule keys_setitem [OF True])
  have c: "contains ?p pid" using True by (simp only: contains_def m)
  have g: "getitem ?p pid = Inr ?x"
    by (simp only: getitem_def map_of_setitem_same [OF True] option.case)
  have u1: "unveil p pid = Inr (?p, ?r)" by (rule unveil_known [OF True x])
  have "unveil ?p pid = Inr (setitem ?p pid (?x\<lparr>pod_state := ''unveiled''\<rparr>), Some (pod_content ?x))"
    by (rule unveil_known [OF c g])
  moreover have "?x\<lparr>pod_state := ''unveiled''\<rparr> = ?x" by simp
  moreover have "pod_content ?x = pod_content x" by simp
  ultimately have u2: "unveil ?p pid = Inr (?p, ?r)"
    by (simp only: setitem_twice [OF True])
  have o: "\<forall>k. k \<noteq> pid \<longrightarrow> getitem ?p k = getitem p k"
  proof (intro allI impI)
    fix k :: string
    assume "k \<noteq> pid"
    then have "map_of ?p k = map_of p k" by (rule map_of_setitem_other [OF True])
    then show "getitem ?p k = getitem p k" by (simp only: getitem_def)
  qed
  show ?thesis
  proof (intro exI conjI)
    show "unveil p pid = Inr (?p, ?r)" by (rule u1)
    show "unveil ?p pid = Inr (?p, ?r)" by (rule u2)
    show "\<not> contains p pid \<longrightarrow> ?p = p \<and> ?r = None" using True by simp
    show "\<forall>y. getitem p pid = Inr y \<longrightarrow>
             getitem ?p pid = Inr (y\<lparr>pod_state := ''unveiled''\<rparr>) \<and> ?r = Some (pod_content y)"
      by (simp add: x g)
    show "\<forall>k. k \<noteq> pid \<longrightarrow> getitem ?p k = getitem p k" by (rule o)
    show "map fst ?p = map fst p" by (rule m)
  qed
qed

theorem unveil_idempotent_total_witness:
  "\<exists>p' r.
      unveil [(''a'', \<lparr>pod_emb = [1, 0], pod_content = ''one'', pod_state = ''latent''\<rparr>),
              (''b'', \<lparr>pod_emb = [0, 1], pod_content = ''two'', pod_state = ''latent''\<rparr>)] ''a''
        = Inr (p', r)
      \<and> unveil p' ''a'' = Inr (p', r)
      \<and> getitem p' ''a''
          = Inr \<lparr>pod_emb = [1, 0], pod_content = ''one'', pod_state = ''unveiled''\<rparr>
      \<and> getitem p' ''b''
          = Inr \<lparr>pod_emb = [0, 1], pod_content = ''two'', pod_state = ''latent''\<rparr>
      \<and> r = Some ''one''
      \<and> map fst p' = [''a'', ''b'']"
proof -
  let ?a = "\<lparr>pod_emb = [1, 0], pod_content = ''one'', pod_state = ''latent''\<rparr>"
  let ?b = "\<lparr>pod_emb = [0, 1], pod_content = ''two'', pod_state = ''latent''\<rparr>"
  let ?P = "[(''a'', ?a), (''b'', ?b)]"
  have ga: "getitem ?P ''a'' = Inr ?a" by (simp add: getitem_def)
  have gb: "getitem ?P ''b'' = Inr ?b" by (simp add: getitem_def)
  have ne: "''b'' \<noteq> ''a''" by simp
  from unveil_idempotent_total [of ?P "''a''"] obtain p' r where
    u1: "unveil ?P ''a'' = Inr (p', r)" and u2: "unveil p' ''a'' = Inr (p', r)"
    and k: "\<forall>x. getitem ?P ''a'' = Inr x \<longrightarrow>
              getitem p' ''a'' = Inr (x\<lparr>pod_state := ''unveiled''\<rparr>) \<and> r = Some (pod_content x)"
    and o: "\<forall>k. k \<noteq> ''a'' \<longrightarrow> getitem p' k = getitem ?P k"
    and m: "map fst p' = map fst ?P"
    by (elim exE conjE)
  from k [rule_format, OF ga]
  have g1: "getitem p' ''a'' = Inr \<lparr>pod_emb = [1, 0], pod_content = ''one'', pod_state = ''unveiled''\<rparr>"
    and r: "r = Some ''one''" by simp_all
  from o [rule_format, OF ne] gb
  have g2: "getitem p' ''b'' = Inr ?b" by (simp only:)
  from m have m': "map fst p' = [''a'', ''b'']" by simp
  show ?thesis
    by (rule exI [of _ p'], rule exI [of _ r]) (intro conjI u1 u2 g1 g2 r m')
qed

section \<open>Rounding\<close>

lemma round_half_even_of_int: "round_half_even (of_int n) = n"
  by (simp add: round_half_even_def)

lemma round_half_even_numeral: "round_half_even (numeral k) = numeral k"
  using round_half_even_of_int [of "numeral k"] by simp

lemma round_half_even_zero: "round_half_even 0 = 0"
  using round_half_even_of_int [of 0] by simp

lemma round_half_even_ge_floor: "\<lfloor>x\<rfloor> \<le> round_half_even x"
  by (simp add: round_half_even_def Let_def)

lemma round_half_even_le_floor: "round_half_even x \<le> \<lfloor>x\<rfloor> + 1"
  by (simp add: round_half_even_def Let_def)

lemma round_half_even_mono:
  assumes "x \<le> y"
  shows "round_half_even x \<le> round_half_even y"
proof (cases "\<lfloor>x\<rfloor> = \<lfloor>y\<rfloor>")
  case True
  with assms show ?thesis by (auto simp: round_half_even_def Let_def)
next
  case False
  from assms have "\<lfloor>x\<rfloor> \<le> \<lfloor>y\<rfloor>" by (rule floor_mono)
  with False have "\<lfloor>x\<rfloor> + 1 \<le> \<lfloor>y\<rfloor>" by simp
  with round_half_even_le_floor [of x] round_half_even_ge_floor [of y]
  show ?thesis by linarith
qed

lemma round_half_even_upper: "of_int (round_half_even x) \<le> x + 1/2"
proof -
  have "of_int \<lfloor>x\<rfloor> \<le> x" by simp
  then show ?thesis by (auto simp: round_half_even_def Let_def; linarith)
qed

lemma round_half_even_lower: "x - 1/2 \<le> of_int (round_half_even x)"
proof -
  have "x < of_int \<lfloor>x\<rfloor> + 1" by linarith
  then show ?thesis by (auto simp: round_half_even_def Let_def; linarith)
qed

lemma py_round_mono: "x \<le> y \<Longrightarrow> py_round x n \<le> py_round y n"
proof -
  assume "x \<le> y"
  then have "x * 10 ^ n \<le> y * 10 ^ n" by simp
  then have "round_half_even (x * 10 ^ n) \<le> round_half_even (y * 10 ^ n)"
    by (rule round_half_even_mono)
  then show ?thesis by (simp add: py_round_def divide_right_mono)
qed

lemma py_round_of_int: "py_round (of_int k / 10 ^ n) n = of_int k / 10 ^ n"
  by (simp add: py_round_def round_half_even_of_int)

lemma py_round_zero: "py_round 0 n = 0"
  by (simp add: py_round_def round_half_even_zero)

lemma py_round_one: "py_round 1 n = 1"
proof -
  have "py_round (of_int (10 ^ n) / 10 ^ n) n = of_int (10 ^ n) / 10 ^ n"
    by (rule py_round_of_int)
  then show ?thesis by simp
qed

lemma py_round_upper: "py_round x n \<le> x + 1 / (2 * 10 ^ n)"
proof -
  have "of_int (round_half_even (x * 10 ^ n)) \<le> x * 10 ^ n + 1/2"
    by (rule round_half_even_upper)
  then have "of_int (round_half_even (x * 10 ^ n)) / 10 ^ n \<le> (x * 10 ^ n + 1/2) / 10 ^ n"
    by (simp add: divide_right_mono)
  also have "\<dots> = x + 1 / (2 * 10 ^ n)" by (simp add: add_divide_distrib)
  finally show ?thesis by (simp add: py_round_def)
qed

lemma py_round_lower: "x - 1 / (2 * 10 ^ n) \<le> py_round x n"
proof -
  have "x * 10 ^ n - 1/2 \<le> of_int (round_half_even (x * 10 ^ n))"
    by (rule round_half_even_lower)
  then have "(x * 10 ^ n - 1/2) / 10 ^ n \<le> of_int (round_half_even (x * 10 ^ n)) / 10 ^ n"
    by (simp add: divide_right_mono)
  moreover have "(x * 10 ^ n - 1/2) / 10 ^ n = x - 1 / (2 * 10 ^ n)"
    by (simp add: diff_divide_distrib)
  ultimately show ?thesis by (simp add: py_round_def)
qed

section \<open>Modulated thresholds\<close>

lemma modulate_thresholds_soft:
  "fst (modulate_thresholds s) = py_round (min (95/100) (68/100 * (12/10 - 4/10 * tau s))) 4"
  by (simp add: modulate_thresholds_def Let_def THETA_SOFT_def)

lemma modulate_thresholds_hard:
  "fst (snd (modulate_thresholds s))
     = py_round (min (98/100) (84/100 * (12/10 - 4/10 * tau s))) 4"
  by (simp add: modulate_thresholds_def Let_def THETA_HARD_def)

lemma modulate_thresholds_pod_high:
  "fst (snd (snd (modulate_thresholds s)))
     = py_round (min (98/100) (85/100 * (12/10 - 4/10 * tau s))) 4"
  by (simp add: modulate_thresholds_def Let_def POD_THETA_HIGH_def)

lemma modulate_thresholds_pod_soft:
  "snd (snd (snd (modulate_thresholds s)))
     = py_round (max (30/100) (50/100 * (2 - (12/10 - 4/10 * tau s)))) 4"
  by (simp add: modulate_thresholds_def Let_def POD_THETA_SOFT_def)

lemma py_round_4_error: "\<bar>py_round x 4 - x\<bar> \<le> 5/100000"
proof -
  have "py_round x 4 \<le> x + 5/100000" using py_round_upper [of x 4] by simp
  moreover have "x - 5/100000 \<le> py_round x 4" using py_round_lower [of x 4] by simp
  ultimately show ?thesis by linarith
qed

lemma modulate_thresholds_at_0:
  "tau s = 0 \<Longrightarrow> modulate_thresholds s = (816/1000, 98/100, 98/100, 4/10)"
  by (simp add: modulate_thresholds_def Let_def THETA_SOFT_def THETA_HARD_def
      POD_THETA_HIGH_def POD_THETA_SOFT_def py_round_def round_half_even_numeral)

lemma modulate_thresholds_at_1:
  "tau s = 1 \<Longrightarrow> modulate_thresholds s = (544/1000, 672/1000, 68/100, 6/10)"
  by (simp add: modulate_thresholds_def Let_def THETA_SOFT_def THETA_HARD_def
      POD_THETA_HIGH_def POD_THETA_SOFT_def py_round_def round_half_even_numeral)

text \<open>
  C7. The four thresholds follow the pulse monotonically: a higher pulse never gives a
  higher soft, hard or pod-high threshold nor a lower pod-soft threshold; at pulse 1 the
  first three are strictly lower and the fourth strictly higher than at pulse 0; and each
  value is the stated formula in \<open>mod = 1.2 - 0.4 * tau\<close>, rounded to four decimals, so
  within \<open>0.00005\<close> of it.
\<close>

theorem modulate_thresholds_monotone:
  "(tau s \<le> tau t \<longrightarrow>
        fst (modulate_thresholds t) \<le> fst (modulate_thresholds s)
      \<and> fst (snd (modulate_thresholds t)) \<le> fst (snd (modulate_thresholds s))
      \<and> fst (snd (snd (modulate_thresholds t))) \<le> fst (snd (snd (modulate_thresholds s)))
      \<and> snd (snd (snd (modulate_thresholds s))) \<le> snd (snd (snd (modulate_thresholds t))))
   \<and> (tau s = 0 \<and> tau t = 1 \<longrightarrow>
        fst (modulate_thresholds t) < fst (modulate_thresholds s)
      \<and> fst (snd (modulate_thresholds t)) < fst (snd (modulate_thresholds s))
      \<and> fst (snd (snd (modulate_thresholds t))) < fst (snd (snd (modulate_thresholds s)))
      \<and> snd (snd (snd (modulate_thresholds s))) < snd (snd (snd (modulate_thresholds t))))
   \<and> modulate_thresholds s =
       (py_round (min (95/100) (68/100 * (12/10 - 4/10 * tau s))) 4,
        py_round (min (98/100) (84/100 * (12/10 - 4/10 * tau s))) 4,
        py_round (min (98/100) (85/100 * (12/10 - 4/10 * tau s))) 4,
        py_round (max (30/100) (50/100 * (2 - (12/10 - 4/10 * tau s)))) 4)
   \<and> \<bar>fst (modulate_thresholds s) - min (95/100) (68/100 * (12/10 - 4/10 * tau s))\<bar>
        \<le> 5/100000
   \<and> \<bar>fst (snd (modulate_thresholds s)) - min (98/100) (84/100 * (12/10 - 4/10 * tau s))\<bar>
        \<le> 5/100000
   \<and> \<bar>fst (snd (snd (modulate_thresholds s)))
         - min (98/100) (85/100 * (12/10 - 4/10 * tau s))\<bar> \<le> 5/100000
   \<and> \<bar>snd (snd (snd (modulate_thresholds s)))
         - max (30/100) (50/100 * (2 - (12/10 - 4/10 * tau s)))\<bar> \<le> 5/100000"
proof (intro conjI impI)
  assume le: "tau s \<le> tau t"
  show "fst (modulate_thresholds t) \<le> fst (modulate_thresholds s)"
    unfolding modulate_thresholds_soft using le by (intro py_round_mono) (simp add: min_def)
  show "fst (snd (modulate_thresholds t)) \<le> fst (snd (modulate_thresholds s))"
    unfolding modulate_thresholds_hard using le by (intro py_round_mono) (simp add: min_def)
  show "fst (snd (snd (modulate_thresholds t))) \<le> fst (snd (snd (modulate_thresholds s)))"
    unfolding modulate_thresholds_pod_high using le
    by (intro py_round_mono) (simp add: min_def)
  show "snd (snd (snd (modulate_thresholds s))) \<le> snd (snd (snd (modulate_thresholds t)))"
    unfolding modulate_thresholds_pod_soft using le
    by (intro py_round_mono) (simp add: max_def)
next
  assume "tau s = 0 \<and> tau t = 1"
  then have s: "modulate_thresholds s = (816/1000, 98/100, 98/100, 4/10)"
    and t: "modulate_thresholds t = (544/1000, 672/1000, 68/100, 6/10)"
    by (simp_all add: modulate_thresholds_at_0 modulate_thresholds_at_1)
  show "fst (modulate_thresholds t) < fst (modulate_thresholds s)"
    unfolding s t by simp
  show "fst (snd (modulate_thresholds t)) < fst (snd (modulate_thresholds s))"
    unfolding s t by simp
  show "fst (snd (snd (modulate_thresholds t))) < fst (snd (snd (modulate_thresholds s)))"
    unfolding s t by simp
  show "snd (snd (snd (modulate_thresholds s))) < snd (snd (snd (modulate_thresholds t)))"
    unfolding s t by simp
next
  show "modulate_thresholds s =
       (py_round (min (95/100) (68/100 * (12/10 - 4/10 * tau s))) 4,
        py_round (min (98/100) (84/100 * (12/10 - 4/10 * tau s))) 4,
        py_round (min (98/100) (85/100 * (12/10 - 4/10 * tau s))) 4,
        py_round (max (30/100) (50/100 * (2 - (12/10 - 4/10 * tau s)))) 4)"
    by (simp add: modulate_thresholds_def Let_def THETA_SOFT_def THETA_HARD_def
        POD_THETA_HIGH_def POD_THETA_SOFT_def)
next
  show "\<bar>fst (modulate_thresholds s) - min (95/100) (68/100 * (12/10 - 4/10 * tau s))\<bar>
        \<le> 5/100000"
    unfolding modulate_thresholds_soft by (rule py_round_4_error)
next
  show "\<bar>fst (snd (modulate_thresholds s)) - min (98/100) (84/100 * (12/10 - 4/10 * tau s))\<bar>
        \<le> 5/100000"
    unfolding modulate_thresholds_hard by (rule py_round_4_error)
next
  show "\<bar>fst (snd (snd (modulate_thresholds s)))
         - min (98/100) (85/100 * (12/10 - 4/10 * tau s))\<bar> \<le> 5/100000"
    unfolding modulate_thresholds_pod_high by (rule py_round_4_error)
next
  show "\<bar>snd (snd (snd (modulate_thresholds s)))
         - max (30/100) (50/100 * (2 - (12/10 - 4/10 * tau s)))\<bar> \<le> 5/100000"
    unfolding modulate_thresholds_pod_soft by (rule py_round_4_error)
qed

theorem modulate_thresholds_monotone_witness:
  "modulate_thresholds (PulseEstimator_init\<lparr>tau := 0\<rparr>) = (816/1000, 98/100, 98/100, 4/10)
   \<and> modulate_thresholds (PulseEstimator_init\<lparr>tau := 1\<rparr>) = (544/1000, 672/1000, 68/100, 6/10)
   \<and> fst (modulate_thresholds (PulseEstimator_init\<lparr>tau := 1\<rparr>))
       < fst (modulate_thresholds (PulseEstimator_init\<lparr>tau := 0\<rparr>))
   \<and> fst (snd (modulate_thresholds (PulseEstimator_init\<lparr>tau := 1\<rparr>)))
       < fst (snd (modulate_thresholds (PulseEstimator_init\<lparr>tau := 0\<rparr>)))
   \<and> fst (snd (snd (modulate_thresholds (PulseEstimator_init\<lparr>tau := 1\<rparr>))))
       < fst (snd (snd (modulate_thresholds (PulseEstimator_init\<lparr>tau := 0\<rparr>))))
   \<and> snd (snd (snd (modulate_thresholds (PulseEstimator_init\<lparr>tau := 0\<rparr>))))
       < snd (snd (snd (modulate_thresholds (PulseEstimator_init\<lparr>tau := 1\<rparr>))))"
proof -
  let ?s = "PulseEstimator_init\<lparr>tau := 0\<rparr>"
  let ?t = "PulseEstimator_init\<lparr>tau := 1\<rparr>"
  have s: "tau ?s = 0" and t: "tau ?t = 1" by simp_all
  have a: "modulate_thresholds ?s = (816/1000, 98/100, 98/100, 4/10)"
    by (rule modulate_thresholds_at_0 [OF s])
  have b: "modulate_thresholds ?t = (544/1000, 672/1000, 68/100, 6/10)"
    by (rule modulate_thresholds_at_1 [OF t])
  from modulate_thresholds_monotone [of ?s ?t] s t
  have "fst (modulate_thresholds ?t) < fst (modulate_thresholds ?s)
      \<and> fst (snd (modulate_thresholds ?t)) < fst (snd (modulate_thresholds ?s))
      \<and> fst (snd (snd (modulate_thresholds ?t))) < fst (snd (snd (modulate_thresholds ?s)))
      \<and> snd (snd (snd (modulate_thresholds ?s))) < snd (snd (snd (modulate_thresholds ?t)))"
    by blast
  with a b show ?thesis by blast
qed

section \<open>The score is total\<close>

lemma index_neg_Inr: "1 \<le> k \<Longrightarrow> k \<le> length xs \<Longrightarrow> index_neg xs k = Inr (xs ! (length xs - k))"
  by (simp add: index_neg_def)

lemma fatigue_dim_velocity:
  assumes "fatigue_dim d s" and "1 \<le> k" and "k \<le> length (fat_v s)"
  shows "length (fat_v s ! (length (fat_v s) - k)) = d"
proof -
  from assms(2,3) have "length (fat_v s) - k < length (fat_v s)" by arith
  with assms(1) show ?thesis by (simp add: fatigue_dim_def list_all_length)
qed

lemma np_dot_checked_dim:
  "length a = d \<Longrightarrow> length b = d \<Longrightarrow> np_dot_checked a b = Inr (np_dot a b)"
  by (simp add: np_dot_checked_def)

lemma minus_checked_dim:
  "length a = d \<Longrightarrow> length b = d \<Longrightarrow> minus_checked a b = Inr (vsub a b)"
  by (simp add: minus_checked_def)

lemma length_vsub_dim: "length a = d \<Longrightarrow> length b = d \<Longrightarrow> length (vsub a b) = d"
  by (simp add: vsub_def)

lemma Fatigue_dp_value:
  assumes "fatigue_dim d s" and "2 \<le> length (fat_v s)"
  shows "Fatigue_dp s =
           Inr (if linalg_norm (fat_v s ! (length (fat_v s) - 2)) > 0
                   \<and> linalg_norm (fat_v s ! (length (fat_v s) - 1)) > 0
                then np_dot (fat_v s ! (length (fat_v s) - 2)) (fat_v s ! (length (fat_v s) - 1))
                       / (linalg_norm (fat_v s ! (length (fat_v s) - 2))
                            * linalg_norm (fat_v s ! (length (fat_v s) - 1)))
                else 0)"
proof -
  let ?a = "fat_v s ! (length (fat_v s) - 2)" and ?b = "fat_v s ! (length (fat_v s) - 1)"
  from assms have a: "length ?a = d" by (intro fatigue_dim_velocity) simp_all
  from assms have b: "length ?b = d" by (intro fatigue_dim_velocity) simp_all
  from assms(2) a b show ?thesis
    by (simp add: Fatigue_dp_def index_neg_def Let_def np_dot_checked_def)
qed

lemma Fatigue_cc_value:
  assumes "fatigue_dim d s" and "3 \<le> length (fat_v s)"
  shows "Fatigue_cc s =
           Inr (if linalg_norm (vsub (fat_v s ! (length (fat_v s) - 2))
                                     (fat_v s ! (length (fat_v s) - 3))) ^ 3 > 0
                then 1 / (linalg_norm
                            (vsub (vsub (fat_v s ! (length (fat_v s) - 1))
                                        (fat_v s ! (length (fat_v s) - 2)))
                                  (vsub (fat_v s ! (length (fat_v s) - 2))
                                        (fat_v s ! (length (fat_v s) - 3))))
                          / linalg_norm (vsub (fat_v s ! (length (fat_v s) - 2))
                                              (fat_v s ! (length (fat_v s) - 3))) ^ 3
                          + 1 / 10 ^ 8)
                else 0)"
proof -
  let ?a = "fat_v s ! (length (fat_v s) - 3)" and ?b = "fat_v s ! (length (fat_v s) - 2)"
    and ?c = "fat_v s ! (length (fat_v s) - 1)"
  from assms have a: "length ?a = d" by (intro fatigue_dim_velocity) simp_all
  from assms have b: "length ?b = d" by (intro fatigue_dim_velocity) simp_all
  from assms have c: "length ?c = d" by (intro fatigue_dim_velocity) simp_all
  from assms(2) a b c show ?thesis
    by (simp add: Fatigue_cc_def index_neg_def Let_def minus_checked_def vsub_def)
qed

lemma Fatigue_dp_total: "fatigue_dim d s \<Longrightarrow> \<exists>dp. Fatigue_dp s = Inr dp"
proof (cases "length (fat_v s) < 2")
  case True
  then show ?thesis by (simp add: Fatigue_dp_def)
next
  case False
  assume "fatigue_dim d s"
  moreover from False have "2 \<le> length (fat_v s)" by simp
  ultimately show ?thesis by (simp only: Fatigue_dp_value) blast
qed

lemma Fatigue_sc_total: "\<exists>sc. Fatigue_sc svd s = Inr sc"
  by (cases "svd (fat_e s)") (simp_all add: Fatigue_sc_def Let_def)

lemma Fatigue_cc_total: "fatigue_dim d s \<Longrightarrow> \<exists>cc. Fatigue_cc s = Inr cc"
proof (cases "length (fat_v s) < 3")
  case True
  then show ?thesis by (simp add: Fatigue_cc_def)
next
  case False
  assume "fatigue_dim d s"
  moreover from False have "3 \<le> length (fat_v s)" by simp
  ultimately show ?thesis by (simp only: Fatigue_cc_value) blast
qed

lemma py_round_unit: "0 \<le> x \<Longrightarrow> x \<le> 1 \<Longrightarrow> 0 \<le> py_round x n \<and> py_round x n \<le> 1"
  using py_round_mono [of 0 x n] py_round_mono [of x 1 n]
  by (simp add: py_round_zero py_round_one)

lemma Fatigue_score_value:
  assumes "Fatigue_dp s = Inr dp" and "Fatigue_sc svd s = Inr sc" and "Fatigue_cc s = Inr cc"
    and "\<not> length (fat_e s) < 2"
  shows "Fatigue_score svd s =
           Inr (py_round (max 0 (min 1 (35/100 * dp + 35/100 * sc + 3/10 * cc))) 4,
                [(''dp'', py_round dp 4), (''sc'', py_round sc 4), (''cc'', py_round cc 4)],
                if max 0 (min 1 (35/100 * dp + 35/100 * sc + 3/10 * cc)) > THETA_HARD then ''hard''
                else if max 0 (min 1 (35/100 * dp + 35/100 * sc + 3/10 * cc)) > THETA_SOFT
                then ''soft'' else ''fresh'')"
  using assms by (simp add: Fatigue_score_def Let_def)

lemma Fatigue_score_total_aux:
  assumes "fatigue_dim d s"
  shows "\<exists>f c st. Fatigue_score svd s = Inr (f, c, st) \<and> 0 \<le> f \<and> f \<le> 1
      \<and> (st = ''fresh'' \<or> st = ''soft'' \<or> st = ''hard'')"
proof (cases "length (fat_e s) < 2")
  case True
  then have "Fatigue_score svd s = Inr (0, [], ''fresh'')" by (simp add: Fatigue_score_def)
  then show ?thesis by simp
next
  case False
  obtain dp where dp: "Fatigue_dp s = Inr dp" using Fatigue_dp_total [OF assms] by blast
  obtain sc where sc: "Fatigue_sc svd s = Inr sc" using Fatigue_sc_total by blast
  obtain cc where cc: "Fatigue_cc s = Inr cc" using Fatigue_cc_total [OF assms] by blast
  let ?f = "max 0 (min 1 (35/100 * dp + 35/100 * sc + 3/10 * cc))"
  have "0 \<le> ?f" and "?f \<le> 1" by simp_all
  then have b: "0 \<le> py_round ?f 4 \<and> py_round ?f 4 \<le> 1" by (rule py_round_unit)
  show ?thesis
    unfolding Fatigue_score_value [OF dp sc cc False] using b by simp
qed

text \<open>
  The states that \<open>update\<close> reaches on embeddings of one dimension are of that
  dimension.
\<close>

lemma Fatigue_update_dim:
  assumes "fatigue_dim d s" and "length x = d"
  shows "fatigue_dim d (Fatigue_update s x)"
proof -
  from assms(1) have e: "list_all (\<lambda>y. length y = d) (fat_e s)"
    and v: "list_all (\<lambda>y. length y = d) (fat_v s)" by (simp_all add: fatigue_dim_def)
  have tl_all: "list_all P xs \<Longrightarrow> list_all P (tl xs)" for P :: "vec \<Rightarrow> bool" and xs
    by (cases xs) simp_all
  have l: "fat_e s \<noteq> [] \<Longrightarrow> length (vsub x (last (fat_e s))) = d"
  proof -
    assume ne: "fat_e s \<noteq> []"
    then have "last (fat_e s) \<in> set (fat_e s)" by simp
    with e have "length (last (fat_e s)) = d" by (simp add: list_all_iff)
    with assms(2) show ?thesis by (simp add: vsub_def)
  qed
  let ?v1 = "if fat_e s \<noteq> [] then fat_v s @ [vsub x (last (fat_e s))] else fat_v s"
  have v1: "list_all (\<lambda>y. length y = d) ?v1" using v l by simp
  have e1: "list_all (\<lambda>y. length y = d) (fat_e s @ [x])" using e assms(2) by simp
  from v1 e1 tl_all [OF v1] tl_all [OF e1] show ?thesis
    by (simp add: fatigue_dim_def Fatigue_update_def Let_def)
qed

lemma Fatigue_updates_dim:
  "fatigue_dim d s \<Longrightarrow> list_all (\<lambda>x. length x = d) xs
     \<Longrightarrow> fatigue_dim d (foldl Fatigue_update s xs)"
  by (induction xs arbitrary: s) (simp_all add: Fatigue_update_dim)

text \<open>
  Outside the data model, on a history whose vectors differ in length, numpy's
  \<^verbatim>\<open>np.dot\<close> raises inside \<^verbatim>\<open>_dp\<close> and the exception leaves \<^verbatim>\<open>score\<close>: the
  hypothesis of one dimension is needed.
\<close>

lemma Fatigue_score_mixed_dimensions:
  "Fatigue_dp \<lparr>fat_w = 5, fat_e = [[1, 2], [5], [7]], fat_v = [[4, 3], [2]]\<rparr> = Inl ValueError
   \<and> Fatigue_score svd \<lparr>fat_w = 5, fat_e = [[1, 2], [5], [7]], fat_v = [[4, 3], [2]]\<rparr>
       = Inl ValueError"
proof -
  have "sqrt 25 = sqrt (5 * 5)" by simp
  then have a: "linalg_norm [4, 3] = 5" unfolding linalg_norm_def by (simp del: real_sqrt_mult)
  have "sqrt 4 = sqrt (2 * 2)" by simp
  then have b: "linalg_norm [2] = 2" unfolding linalg_norm_def by (simp del: real_sqrt_mult)
  have dp: "Fatigue_dp \<lparr>fat_w = 5, fat_e = [[1, 2], [5], [7]], fat_v = [[4, 3], [2]]\<rparr>
      = Inl ValueError"
    by (simp add: Fatigue_dp_def index_neg_def Let_def a b np_dot_checked_def)
  then show ?thesis by (simp add: Fatigue_score_def)
qed

text \<open>
  C10. For every state of the scorer whose vectors have one dimension, the fixed length
  of an embedding, and whatever the decomposition does, \<open>score\<close> returns: the three
  sub-scores return, the fatigue is between 0 and 1 and the status is one of the three.
  A failing decomposition gives \<open>sc = 0\<close>; a history of fewer than two embeddings gives
  the neutral result; fewer than two (three) differences give \<open>dp = 0\<close> (\<open>cc = 0\<close>); a
  zero vector among the last two differences gives \<open>dp = 0\<close>, equal second and third last
  differences give \<open>cc = 0\<close>, and singular values of sum zero give \<open>sc = 0\<close>.
\<close>

theorem Fatigue_score_total:
  assumes "fatigue_dim d s"
  shows "(\<exists>f c st. Fatigue_score svd s = Inr (f, c, st) \<and> 0 \<le> f \<and> f \<le> 1
       \<and> (st = ''fresh'' \<or> st = ''soft'' \<or> st = ''hard''))
   \<and> (\<exists>dp. Fatigue_dp s = Inr dp) \<and> (\<exists>sc. Fatigue_sc svd s = Inr sc)
   \<and> (\<exists>cc. Fatigue_cc s = Inr cc)
   \<and> (svd (fat_e s) = Inl err \<longrightarrow> Fatigue_sc svd s = Inr 0)
   \<and> (length (fat_e s) < 2 \<longrightarrow>
         Fatigue_score svd s = Inr (0, [], ''fresh'') \<and> Fatigue_sc svd s = Inr 0)
   \<and> (length (fat_v s) < 2 \<longrightarrow> Fatigue_dp s = Inr 0)
   \<and> (length (fat_v s) < 3 \<longrightarrow> Fatigue_cc s = Inr 0)
   \<and> (2 \<le> length (fat_v s)
        \<and> (linalg_norm (fat_v s ! (length (fat_v s) - 2)) = 0
           \<or> linalg_norm (fat_v s ! (length (fat_v s) - 1)) = 0)
        \<longrightarrow> Fatigue_dp s = Inr 0)
   \<and> (3 \<le> length (fat_v s)
        \<and> linalg_norm (vsub (fat_v s ! (length (fat_v s) - 2))
                               (fat_v s ! (length (fat_v s) - 3))) = 0
        \<longrightarrow> Fatigue_cc s = Inr 0)
   \<and> (svd (fat_e s) = Inr S \<and> sum_list S \<le> 0 \<longrightarrow> Fatigue_sc svd s = Inr 0)"
proof (intro conjI impI)
  show "\<exists>f c st. Fatigue_score svd s = Inr (f, c, st) \<and> 0 \<le> f \<and> f \<le> 1
       \<and> (st = ''fresh'' \<or> st = ''soft'' \<or> st = ''hard'')"
    by (rule Fatigue_score_total_aux [OF assms])
  show "\<exists>dp. Fatigue_dp s = Inr dp" by (rule Fatigue_dp_total [OF assms])
  show "\<exists>sc. Fatigue_sc svd s = Inr sc" by (rule Fatigue_sc_total)
  show "\<exists>cc. Fatigue_cc s = Inr cc" by (rule Fatigue_cc_total [OF assms])
next
  assume "svd (fat_e s) = Inl err"
  then show "Fatigue_sc svd s = Inr 0" by (simp add: Fatigue_sc_def)
next
  assume "length (fat_e s) < 2"
  then show "Fatigue_score svd s = Inr (0, [], ''fresh'')" by (simp add: Fatigue_score_def)
next
  assume "length (fat_e s) < 2"
  then show "Fatigue_sc svd s = Inr 0" by (simp add: Fatigue_sc_def)
next
  assume "length (fat_v s) < 2"
  then show "Fatigue_dp s = Inr 0" by (simp add: Fatigue_dp_def)
next
  assume "length (fat_v s) < 3"
  then show "Fatigue_cc s = Inr 0" by (simp add: Fatigue_cc_def)
next
  assume a: "2 \<le> length (fat_v s)
        \<and> (linalg_norm (fat_v s ! (length (fat_v s) - 2)) = 0
           \<or> linalg_norm (fat_v s ! (length (fat_v s) - 1)) = 0)"
  then have "2 \<le> length (fat_v s)" by (rule conjunct1)
  from Fatigue_dp_value [OF assms this] a show "Fatigue_dp s = Inr 0" by auto
next
  assume a: "3 \<le> length (fat_v s)
        \<and> linalg_norm (vsub (fat_v s ! (length (fat_v s) - 2))
                               (fat_v s ! (length (fat_v s) - 3))) = 0"
  then have "3 \<le> length (fat_v s)" by (rule conjunct1)
  from Fatigue_cc_value [OF assms this] a show "Fatigue_cc s = Inr 0" by simp
next
  assume "svd (fat_e s) = Inr S \<and> sum_list S \<le> 0"
  then show "Fatigue_sc svd s = Inr 0" by (simp add: Fatigue_sc_def Let_def)
qed

theorem Fatigue_score_total_witness:
  "Fatigue_score (\<lambda>m. Inl LinAlgError)
     (foldl Fatigue_update (Fatigue_init 5) [[0, 0], [0, 0], [0, 0], [0, 0]])
     = Inr (0, [(''dp'', 0), (''sc'', 0), (''cc'', 0)], ''fresh'')
   \<and> Fatigue_score (\<lambda>m. Inl LinAlgError) (Fatigue_init 5) = Inr (0, [], ''fresh'')"
proof -
  let ?svd = "\<lambda>m :: vec list. (Inl LinAlgError :: py_error + real list)"
  let ?s = "\<lparr>fat_w = 5, fat_e = [[0, 0], [0, 0], [0, 0], [0, 0]],
             fat_v = [[0, 0], [0, 0], [0, 0]]\<rparr>"
  have s: "foldl Fatigue_update (Fatigue_init 5) [[0, 0], [0, 0], [0, 0], [0, 0]] = ?s"
    by (simp add: Fatigue_update_def Fatigue_init_def Let_def vsub_def)
  have dim: "fatigue_dim 2 ?s" by (simp add: fatigue_dim_def)
  have dim0: "fatigue_dim 2 (Fatigue_init 5)" by (simp add: fatigue_dim_def Fatigue_init_def)
  have n: "linalg_norm [0, 0] = 0" by (simp add: linalg_norm_def)
  have v: "linalg_norm (vsub [0, 0] [0, 0]) = 0" by (simp add: linalg_norm_def vsub_def)
  note t = Fatigue_score_total [OF dim, of ?svd LinAlgError "[]"]
  from t have sc: "Fatigue_sc ?svd ?s = Inr 0" by blast
  from t n have dp: "Fatigue_dp ?s = Inr 0" by simp
  from t v have cc: "Fatigue_cc ?s = Inr 0" by simp
  have len: "\<not> length (fat_e ?s) < 2" by simp
  have a: "Fatigue_score ?svd ?s = Inr (0, [(''dp'', 0), (''sc'', 0), (''cc'', 0)], ''fresh'')"
    unfolding Fatigue_score_value [OF dp sc cc len]
    by (simp add: py_round_zero THETA_HARD_def THETA_SOFT_def)
  from Fatigue_score_total [OF dim0, of ?svd LinAlgError "[]"]
  have b: "Fatigue_score ?svd (Fatigue_init 5) = Inr (0, [], ''fresh'')"
    by (simp add: Fatigue_init_def)
  from a b show ?thesis by (simp only: s simp_thms)
qed

section \<open>Pod detection and the hard threshold\<close>

lemma detect_pod_adaptive_is_spec_at_THETA_HARD:
  "detect_pod_adaptive p emb f_score pod_high pod_soft
     = spec_detect p emb f_score pod_high pod_soft THETA_HARD"
proof -
  have "detect_step emb f_score pod_high pod_soft
          = spec_detect_step emb f_score pod_high pod_soft THETA_HARD"
    by (intro ext) (simp add: detect_step_def spec_detect_step_def)
  then show ?thesis by (simp add: detect_pod_adaptive_def spec_detect_def)
qed

text \<open>
  C2. \<^verbatim>\<open>speak\<close> calls the detection with the modulated thresholds of the pulse
  \<open>0.7\<close>: \<open>pod_high = 0.782\<close>, \<open>pod_soft = 0.54\<close>, where the modulated hard threshold is
  \<open>0.7728\<close>. With a fatigue score of \<open>0.8\<close>, above the modulated hard threshold, a latent
  pod of similarity \<open>0.6\<close> matches by the specification; the code compares the score with
  the constant \<open>THETA_HARD = 0.84\<close> and returns nothing.
\<close>

theorem detect_pod_adaptive_fixed_hard_threshold:
  "modulate_thresholds (PulseEstimator_init\<lparr>tau := 7/10\<rparr>)
     = (6256/10000, 7728/10000, 782/1000, 54/100)
   \<and> detect_pod_adaptive
       [(''p1'', \<lparr>pod_emb = [1, 0], pod_content = ''seed'', pod_state = ''latent''\<rparr>)]
       [3/5, 4/5] (8/10) (782/1000) (54/100) = None
   \<and> spec_detect
       [(''p1'', \<lparr>pod_emb = [1, 0], pod_content = ''seed'', pod_state = ''latent''\<rparr>)]
       [3/5, 4/5] (8/10) (782/1000) (54/100) (7728/10000) = Some (''p1'', 3/5, ''seed'')"
proof (intro conjI)
  show "modulate_thresholds (PulseEstimator_init\<lparr>tau := 7/10\<rparr>)
     = (6256/10000, 7728/10000, 782/1000, 54/100)"
    by (simp add: modulate_thresholds_def Let_def THETA_SOFT_def THETA_HARD_def
        POD_THETA_HIGH_def POD_THETA_SOFT_def py_round_def round_half_even_numeral)
  have n1: "linalg_norm [1, 0] = 1" by (simp add: linalg_norm_def)
  have n2: "linalg_norm [3/5, 4/5] = 1" by (simp add: linalg_norm_def)
  have d: "np_dot [3/5, 4/5] [1, 0] = 3/5" by (simp add: np_dot_def)
  show "detect_pod_adaptive
       [(''p1'', \<lparr>pod_emb = [1, 0], pod_content = ''seed'', pod_state = ''latent''\<rparr>)]
       [3/5, 4/5] (8/10) (782/1000) (54/100) = None"
    by (simp add: detect_pod_adaptive_def detect_step_def Let_def n1 n2 d THETA_HARD_def)
  show "spec_detect
       [(''p1'', \<lparr>pod_emb = [1, 0], pod_content = ''seed'', pod_state = ''latent''\<rparr>)]
       [3/5, 4/5] (8/10) (782/1000) (54/100) (7728/10000) = Some (''p1'', 3/5, ''seed'')"
    by (simp add: spec_detect_def spec_detect_step_def Let_def n1 n2 d)
qed

section \<open>Breathing events\<close>

text \<open>
  C5. The tagged events of a sample are passed through inside the loop over the
  pairs, which starts at the second sample: the events of the first sample of a session
  are dropped. A session of one turn on which a pod was unveiled has no breathing event.
\<close>

theorem breathing_events_drop_first_sample:
  "breathing_events
     (RhythmStore_record [] 0 1 (1/2) 0 ''fresh'' [] [] (Some [''pod_unveiled'']))
     = []
   \<and> spec_breathing_events
       (RhythmStore_record [] 0 1 (1/2) 0 ''fresh'' [] [] (Some [''pod_unveiled'']))
     = [\<lparr>ev_turn = 1, ev_type = ''pod_unveiled'', ev_tau_h_delta = None, ev_F_t = None\<rparr>]
   \<and> (\<exists>sg. compute_signature
              (RhythmStore_record [] 0 1 (1/2) 0 ''fresh'' [] [] (Some [''pod_unveiled'']))
            = Full_signature sg \<and> sig_breathing_events sg = [])"
  by (simp add: RhythmStore_record_def spec_breathing_events_def tagged_events_def
      compute_signature_def)

section \<open>The sustained direction\<close>

lemma sum_squares_nonneg: "0 \<le> sum_list (map (\<lambda>x. x * x) (a :: real list))"
  by (induction a) simp_all

lemma linalg_norm_nonneg: "0 \<le> linalg_norm a"
  by (simp add: linalg_norm_def sum_squares_nonneg)

lemma sum_squares_divide:
  "sum_list (map (\<lambda>x. x * x) (map (\<lambda>c. c / n) (a :: real list)))
     = sum_list (map (\<lambda>x. x * x) a) / (n * n)"
  by (induction a) (simp_all add: add_divide_distrib)

lemma linalg_norm_normalized:
  assumes "0 < linalg_norm a"
  shows "linalg_norm (map (\<lambda>c. c / linalg_norm a) a) = 1"
proof -
  let ?S = "sum_list (map (\<lambda>x. x * x) a)"
  let ?n = "linalg_norm a"
  have n: "?n * ?n = ?S"
    unfolding linalg_norm_def using sum_squares_nonneg [of a] by simp
  from assms have "0 < ?S" using n by (metis mult_pos_pos)
  have "linalg_norm (map (\<lambda>c. c / ?n) a) = sqrt (?S / (?n * ?n))"
    unfolding linalg_norm_def [of "map (\<lambda>c. c / ?n) a"] by (simp only: sum_squares_divide)
  also have "\<dots> = sqrt 1" using \<open>0 < ?S\<close> by (simp add: n)
  finally show ?thesis by simp
qed

lemma normalize_if_positive_norm:
  "(0 < linalg_norm x \<and> linalg_norm (normalize_if_positive x) = 1)
   \<or> (linalg_norm x = 0 \<and> normalize_if_positive x = x)"
proof (cases "0 < linalg_norm x")
  case True
  then show ?thesis by (simp add: normalize_if_positive_def Let_def linalg_norm_normalized)
next
  case False
  with linalg_norm_nonneg [of x] have "linalg_norm x = 0" by simp
  then show ?thesis by (simp add: normalize_if_positive_def Let_def)
qed

lemma normalize_if_positive_unit_or_zero:
  "linalg_norm (normalize_if_positive x) = 1 \<or> linalg_norm (normalize_if_positive x) = 0"
  using normalize_if_positive_norm [of x] by auto

lemma DirectionTracker_update_set:
  "\<exists>d. tau_dir (DirectionTracker_update s x t) = Some d
       \<and> (linalg_norm d = 1 \<or> linalg_norm d = 0)"
  by (cases "tau_dir s")
     (simp_all add: DirectionTracker_update_def Let_def normalize_if_positive_unit_or_zero)

lemma DirectionTracker_updates_set:
  "(\<exists>d. tau_dir s = Some d \<and> (linalg_norm d = 1 \<or> linalg_norm d = 0)) \<Longrightarrow>
   \<exists>d. tau_dir (DirectionTracker_updates s us) = Some d
       \<and> (linalg_norm d = 1 \<or> linalg_norm d = 0)"
proof (induction us arbitrary: s)
  case Nil
  then show ?case by simp
next
  case (Cons u us)
  obtain x t where u: "u = (x, t)" by (cases u)
  from DirectionTracker_update_set [of s x t]
  have "\<exists>d. tau_dir (DirectionTracker_updates (DirectionTracker_update s x t) us) = Some d
       \<and> (linalg_norm d = 1 \<or> linalg_norm d = 0)"
    by (rule Cons.IH)
  then show ?case by (simp add: u)
qed

text \<open>
  C4 (as amended). From a new or reset tracker, after one or more updates the
  sustained direction is set and is a unit vector or a zero vector. The first
  observation sets it to the embedding divided by its norm when the norm is positive,
  and to the embedding itself, a zero vector, otherwise. A later update sets it to the
  blend divided by its norm when that norm is positive, and to the blend itself
  otherwise.
\<close>

theorem DirectionTracker_direction_unit_or_zero:
  assumes "tau_dir s0 = None" and "us \<noteq> []"
  shows "(\<exists>d. tau_dir (DirectionTracker_updates s0 us) = Some d
            \<and> (linalg_norm d = 1 \<or> linalg_norm d = 0))
    \<and> tau_dir (DirectionTracker_update s0 x t) = Some (normalize_if_positive x)
    \<and> (0 < linalg_norm x \<longrightarrow>
           normalize_if_positive x = map (\<lambda>c. c / linalg_norm x) x
         \<and> linalg_norm (normalize_if_positive x) = 1)
    \<and> (linalg_norm x = 0 \<longrightarrow> normalize_if_positive x = x)
    \<and> (tau_dir s = Some d \<longrightarrow>
           tau_dir (DirectionTracker_update s x t)
             = Some (normalize_if_positive
                 (vadd (vscale (base_alpha s + (1 - base_alpha s) * (1 - t)) d)
                       (vscale (1 - (base_alpha s + (1 - base_alpha s) * (1 - t))) x))))"
proof (intro conjI)
  from assms(2) obtain u us' where us: "us = u # us'" by (cases us) auto
  obtain y r where u: "u = (y, r)" by (cases u)
  from DirectionTracker_update_set [of s0 y r]
  have "\<exists>d. tau_dir (DirectionTracker_updates (DirectionTracker_update s0 y r) us') = Some d
       \<and> (linalg_norm d = 1 \<or> linalg_norm d = 0)"
    by (rule DirectionTracker_updates_set)
  then show "\<exists>d. tau_dir (DirectionTracker_updates s0 us) = Some d
            \<and> (linalg_norm d = 1 \<or> linalg_norm d = 0)"
    by (simp add: us u)
  from assms(1) show "tau_dir (DirectionTracker_update s0 x t) = Some (normalize_if_positive x)"
    by (simp add: DirectionTracker_update_def)
  show "0 < linalg_norm x \<longrightarrow>
           normalize_if_positive x = map (\<lambda>c. c / linalg_norm x) x
         \<and> linalg_norm (normalize_if_positive x) = 1"
    by (simp add: normalize_if_positive_def Let_def linalg_norm_normalized)
  show "linalg_norm x = 0 \<longrightarrow> normalize_if_positive x = x"
    by (simp add: normalize_if_positive_def Let_def)
  show "tau_dir s = Some d \<longrightarrow>
           tau_dir (DirectionTracker_update s x t)
             = Some (normalize_if_positive
                 (vadd (vscale (base_alpha s + (1 - base_alpha s) * (1 - t)) d)
                       (vscale (1 - (base_alpha s + (1 - base_alpha s) * (1 - t))) x)))"
    by (simp add: DirectionTracker_update_def Let_def)
qed

theorem DirectionTracker_direction_unit_or_zero_witness:
  "(\<exists>d. tau_dir (DirectionTracker_updates DirectionTracker_init [([3, 4], 1/2), ([0, 1], 1/2)])
          = Some d \<and> (linalg_norm d = 1 \<or> linalg_norm d = 0))
   \<and> tau_dir (DirectionTracker_update DirectionTracker_init [3, 4] (1/2)) = Some [3/5, 4/5]
   \<and> linalg_norm [3/5, 4/5] = 1"
proof -
  have i: "tau_dir DirectionTracker_init = None" by (simp add: DirectionTracker_init_def)
  have ne: "[([3, 4], 1/2), ([0, 1], 1/2)] \<noteq> ([] :: (vec \<times> real) list)" by simp
  have "sqrt 25 = sqrt (5 * 5)" by simp
  then have n: "linalg_norm [3, 4] = 5" unfolding linalg_norm_def by (simp del: real_sqrt_mult)
  note t = DirectionTracker_direction_unit_or_zero
    [OF i ne, where x = "[3, 4]" and t = "1/2" and s = DirectionTracker_init and d = "[]"]
  from t have t1: "\<exists>d. tau_dir (DirectionTracker_updates DirectionTracker_init
            [([3, 4], 1/2), ([0, 1], 1/2)]) = Some d \<and> (linalg_norm d = 1 \<or> linalg_norm d = 0)"
    by (rule conjunct1)
  from t have t2: "tau_dir (DirectionTracker_update DirectionTracker_init [3, 4] (1/2))
      = Some (normalize_if_positive [3, 4])"
    by (simp only:)
  note t3 = t [THEN conjunct2, THEN conjunct2, THEN conjunct1]
  have pos: "0 < linalg_norm [3, 4]" by (simp add: n)
  from t3 pos have a: "normalize_if_positive [3, 4] = map (\<lambda>c. c / linalg_norm [3, 4]) [3, 4]"
    and l0: "linalg_norm (normalize_if_positive [3, 4]) = 1" by blast+
  from a have m: "normalize_if_positive [3, 4] = [3/5, 4/5]" by (simp add: n)
  from l0 have l: "linalg_norm [3/5, 4/5] = 1" by (simp only: m)
  from t1 t2 l show ?thesis by (simp only: m simp_thms)
qed

theorem DirectionTracker_zero_direction_counterexample:
  "tau_dir (DirectionTracker_updates DirectionTracker_init [([0, 0], 1/2)]) = Some [0, 0]
   \<and> linalg_norm [0, 0] \<noteq> 1"
  by (simp add: DirectionTracker_init_def DirectionTracker_update_def normalize_if_positive_def
      linalg_norm_def)

section \<open>A repeated embedding\<close>

lemma deltas_replicate: "deltas (replicate n v) = replicate (n - 1) (vsub v v)"
proof (induction n)
  case 0
  then show ?case by simp
next
  case (Suc n)
  then show ?case by (cases n) simp_all
qed

lemma lastn_replicate: "lastn k (replicate n x) = replicate (min k n) x"
proof -
  have "n - (n - k) = min k n" by arith
  then show ?thesis by (simp add: lastn_def)
qed

lemma vsub_self: "vsub v v = replicate (length v) 0"
  by (induction v) (simp_all add: vsub_def)

lemma linalg_norm_zeros: "linalg_norm (replicate k 0) = 0"
  by (induction k) (simp_all add: linalg_norm_def)

lemma linalg_norm_vsub_self: "linalg_norm (vsub v v) = 0"
  by (simp only: vsub_self linalg_norm_zeros)

lemma Fatigue_repeated_windows:
  "fat_e (foldl Fatigue_update (Fatigue_init 5) (replicate n v)) = replicate (min 5 n) v
   \<and> fat_v (foldl Fatigue_update (Fatigue_init 5) (replicate n v))
       = replicate (min 5 (n - 1)) (vsub v v)"
proof -
  have "0 < fat_w (Fatigue_init 5)" "fat_e (Fatigue_init 5) = []" "fat_v (Fatigue_init 5) = []"
    by (simp_all add: Fatigue_init_def)
  from Fatigue_updates_windows [OF this, of "replicate n v"]
  show ?thesis by (simp add: Fatigue_init_def lastn_replicate deltas_replicate)
qed

lemma Fatigue_dp_zero_velocities:
  assumes "fat_v s = replicate k z" and "linalg_norm z = 0"
  shows "Fatigue_dp s = Inr 0"
  using assms by (simp add: Fatigue_dp_def index_neg_def Let_def)

lemma Fatigue_cc_equal_velocities:
  assumes "fat_v s = replicate k z"
  shows "Fatigue_cc s = Inr 0"
  using assms linalg_norm_vsub_self [of z]
  by (simp add: Fatigue_cc_def index_neg_def minus_checked_def Let_def)

lemma sum_list_take_le:
  assumes "\<forall>x \<in> set S. 0 \<le> (x :: real)"
  shows "sum_list (take k S) \<le> sum_list S"
proof -
  have "sum_list S = sum_list (take k S) + sum_list (drop k S)"
    by (metis append_take_drop_id sum_list_append)
  moreover have "0 \<le> sum_list (drop k S)"
    using assms by (intro sum_list_nonneg) (auto dest: in_set_dropD)
  ultimately show ?thesis by simp
qed

lemma Fatigue_sc_unit:
  assumes "svd_nonneg svd"
  shows "\<exists>sc. Fatigue_sc svd s = Inr sc \<and> 0 \<le> sc \<and> sc \<le> 1"
proof (cases "svd (fat_e s)")
  case (Inl err)
  then show ?thesis by (simp add: Fatigue_sc_def)
next
  case (Inr S)
  with assms have nn: "\<forall>x \<in> set S. 0 \<le> x" by (auto simp: svd_nonneg_def)
  have le: "sum_list (take (min 3 (length S)) S) \<le> sum_list S"
    by (rule sum_list_take_le [OF nn])
  have ge: "0 \<le> sum_list (take (min 3 (length S)) S)"
    using nn by (intro sum_list_nonneg) (auto dest: in_set_takeD)
  from le ge Inr show ?thesis by (simp add: Fatigue_sc_def Let_def)
qed

lemma sum_list_zeros: "sum_list (replicate i (0 :: real)) = 0"
  by (induction i) simp_all

lemma sum_list_take_head_zeros:
  "0 < j \<Longrightarrow> sum_list (take j ((x :: real) # replicate i 0)) = x"
  by (cases j) (simp_all add: sum_list_zeros)

lemma Fatigue_sc_equal_rows:
  assumes "fat_e s = replicate k v" and "2 \<le> k" and "0 < linalg_norm v"
  shows "Fatigue_sc svd_equal_rows s = Inr 1"
proof -
  let ?x = "sqrt (real k) * linalg_norm v"
  let ?S = "?x # replicate (min k (length v) - 1) 0"
  from assms(2) have hd: "hd (replicate k v) = v" by (cases k) simp_all
  have svd: "svd_equal_rows (fat_e s) = Inr ?S"
    by (simp add: svd_equal_rows_def assms(1) hd)
  from assms have pos: "0 < ?x" by simp
  have t: "sum_list ?S = ?x" by (simp add: sum_list_zeros)
  have "0 < min 3 (length ?S)" by simp
  then have top: "sum_list (take (min 3 (length ?S)) ?S) = ?x"
    by (rule sum_list_take_head_zeros)
  have len: "\<not> length (fat_e s) < 2" using assms by simp
  have "Fatigue_sc svd_equal_rows s
          = Inr (if sum_list ?S > 0 then sum_list (take (min 3 (length ?S)) ?S) / sum_list ?S else 0)"
    using len by (simp only: Fatigue_sc_def svd Let_def if_False sum.case)
  also have "\<dots> = Inr 1"
  proof -
    from pos have "?x \<noteq> 0" by (rule less_imp_neq [THEN not_sym])
    then have "?x / ?x = 1" by (rule divide_self)
    with pos show ?thesis by (simp only: top t if_True)
  qed
  finally show ?thesis .
qed

lemma svd_equal_rows_nonneg: "svd_nonneg svd_equal_rows"
  by (auto simp: svd_nonneg_def svd_equal_rows_def linalg_norm_nonneg)

lemma py_round_35: "py_round (35/100) 4 = 35/100"
  by (simp add: py_round_def round_half_even_numeral)

lemma py_round_7_20: "py_round (7/20) 4 = 7/20"
  using py_round_35 by simp

lemma Fatigue_score_repeated_bound:
  assumes "svd_nonneg svd"
  shows "\<exists>f c. Fatigue_score svd (foldl Fatigue_update (Fatigue_init 5) (replicate n v))
                 = Inr (f, c, ''fresh'') \<and> 0 \<le> f \<and> f \<le> 35/100"
proof -
  let ?s = "foldl Fatigue_update (Fatigue_init 5) (replicate n v)"
  show ?thesis
  proof (cases "length (fat_e ?s) < 2")
    case True
    then have "Fatigue_score svd ?s = Inr (0, [], ''fresh'')" by (simp add: Fatigue_score_def)
    then show ?thesis by simp
  next
    case False
    have v: "fat_v ?s = replicate (min 5 (n - 1)) (vsub v v)"
      using Fatigue_repeated_windows [of n v] by (rule conjunct2)
    have dp: "Fatigue_dp ?s = Inr 0"
      by (rule Fatigue_dp_zero_velocities [OF v linalg_norm_vsub_self])
    have cc: "Fatigue_cc ?s = Inr 0" by (rule Fatigue_cc_equal_velocities [OF v])
    from Fatigue_sc_unit [OF assms, of ?s] obtain sc
      where sc: "Fatigue_sc svd ?s = Inr sc" and sc0: "0 \<le> sc" and sc1: "sc \<le> 1" by blast
    let ?f = "max 0 (min 1 (35/100 * 0 + 35/100 * sc + 3/10 * 0))"
    from sc0 sc1 have f0: "0 \<le> ?f" and f1: "?f \<le> 35/100" by simp_all
    from f1 have st: "\<not> ?f > THETA_HARD" "\<not> ?f > THETA_SOFT"
      by (simp_all add: THETA_HARD_def THETA_SOFT_def)
    have "py_round 0 4 \<le> py_round ?f 4" by (rule py_round_mono [OF f0])
    then have r0: "0 \<le> py_round ?f 4" by (simp only: py_round_zero)
    have "py_round ?f 4 \<le> py_round (35/100) 4" by (rule py_round_mono [OF f1])
    then have r1: "py_round ?f 4 \<le> 35/100" by (simp only: py_round_35)
    from r0 r1 st show ?thesis
      unfolding Fatigue_score_value [OF dp sc cc False] by (simp only: if_False) simp
  qed
qed

lemma Fatigue_score_repeated_exact:
  assumes "2 \<le> n" and "0 < linalg_norm v"
  shows "Fatigue_score svd_equal_rows (foldl Fatigue_update (Fatigue_init 5) (replicate n v))
           = Inr (35/100, [(''dp'', 0), (''sc'', 1), (''cc'', 0)], ''fresh'')"
proof -
  let ?s = "foldl Fatigue_update (Fatigue_init 5) (replicate n v)"
  have e: "fat_e ?s = replicate (min 5 n) v"
    using Fatigue_repeated_windows [of n v] by (rule conjunct1)
  have v: "fat_v ?s = replicate (min 5 (n - 1)) (vsub v v)"
    using Fatigue_repeated_windows [of n v] by (rule conjunct2)
  from assms(1) have k: "2 \<le> min 5 n" by simp
  have len: "\<not> length (fat_e ?s) < 2" using k by (simp add: e)
  have dp: "Fatigue_dp ?s = Inr 0"
    by (rule Fatigue_dp_zero_velocities [OF v linalg_norm_vsub_self])
  have cc: "Fatigue_cc ?s = Inr 0" by (rule Fatigue_cc_equal_velocities [OF v])
  have sc: "Fatigue_sc svd_equal_rows ?s = Inr 1"
    by (rule Fatigue_sc_equal_rows [OF e k assms(2)])
  show ?thesis
    unfolding Fatigue_score_value [OF dp sc cc len]
    by (simp add: py_round_7_20 py_round_zero py_round_one THETA_HARD_def THETA_SOFT_def)
qed

lemma modulate_thresholds_soft_lower:
  assumes "tau p \<le> 1"
  shows "544/1000 \<le> fst (modulate_thresholds p)"
proof -
  from assms have "544/1000 \<le> min (95/100) (68/100 * (12/10 - 4/10 * tau p))" by simp
  then have "py_round (544/1000) 4 \<le> py_round (min (95/100) (68/100 * (12/10 - 4/10 * tau p))) 4"
    by (rule py_round_mono)
  moreover have "py_round (544/1000) 4 = 544/1000"
    by (simp add: py_round_def round_half_even_numeral)
  ultimately show ?thesis by (simp only: modulate_thresholds_soft)
qed

lemma modulate_thresholds_hard_lower:
  assumes "tau p \<le> 1"
  shows "672/1000 \<le> fst (snd (modulate_thresholds p))"
proof -
  from assms have "672/1000 \<le> min (98/100) (84/100 * (12/10 - 4/10 * tau p))" by simp
  then have "py_round (672/1000) 4 \<le> py_round (min (98/100) (84/100 * (12/10 - 4/10 * tau p))) 4"
    by (rule py_round_mono)
  moreover have "py_round (672/1000) 4 = 672/1000"
    by (simp add: py_round_def round_half_even_numeral)
  ultimately show ?thesis by (simp only: modulate_thresholds_hard)
qed

text \<open>
  C1 (as amended). When one embedding is fed again and again, every difference of
  consecutive embeddings is the zero vector, so \<open>dp = 0\<close> and \<open>cc = 0\<close> by their
  guards and the fatigue is \<open>0.35 * sc\<close>: it is at most \<open>0.35\<close> after any number of
  updates, the status of \<open>score\<close> is \<open>fresh\<close>, and so is the status under the modulated
  thresholds of any pulse up to 1. With the singular values of a matrix of equal nonzero
  rows the fatigue is exactly \<open>0.35\<close> from the second update on.
\<close>

theorem Fatigue_repeated_embedding_stays_fresh:
  assumes "svd_nonneg svd"
    and "s = foldl Fatigue_update (Fatigue_init 5) (replicate n v)"
  shows "\<exists>f c. Fatigue_score svd s = Inr (f, c, ''fresh'') \<and> 0 \<le> f \<and> f \<le> 35/100
           \<and> Fatigue_dp s = Inr 0 \<and> Fatigue_cc s = Inr 0
           \<and> (tau p \<le> 1 \<longrightarrow>
                speak_f_status f (fst (modulate_thresholds p)) (fst (snd (modulate_thresholds p)))
                  = ''fresh'')
           \<and> (2 \<le> n \<and> 0 < linalg_norm v \<longrightarrow>
                Fatigue_score svd_equal_rows s
                  = Inr (35/100, [(''dp'', 0), (''sc'', 1), (''cc'', 0)], ''fresh''))"
proof -
  from Fatigue_score_repeated_bound [OF assms(1), of n v] obtain f c
    where sc: "Fatigue_score svd s = Inr (f, c, ''fresh'')" and f0: "0 \<le> f"
      and f1: "f \<le> 35/100"
    unfolding assms(2) by blast
  have v: "fat_v s = replicate (min 5 (n - 1)) (vsub v v)"
    unfolding assms(2) using Fatigue_repeated_windows [of n v] by (rule conjunct2)
  have dp: "Fatigue_dp s = Inr 0"
    by (rule Fatigue_dp_zero_velocities [OF v linalg_norm_vsub_self])
  have cc: "Fatigue_cc s = Inr 0" by (rule Fatigue_cc_equal_velocities [OF v])
  have th: "tau p \<le> 1 \<longrightarrow>
      speak_f_status f (fst (modulate_thresholds p)) (fst (snd (modulate_thresholds p)))
        = ''fresh''"
  proof
    assume t: "tau p \<le> 1"
    from modulate_thresholds_soft_lower [OF t] modulate_thresholds_hard_lower [OF t] f1
    show "speak_f_status f (fst (modulate_thresholds p)) (fst (snd (modulate_thresholds p)))
        = ''fresh''"
      by (simp add: speak_f_status_def)
  qed
  have ex: "2 \<le> n \<and> 0 < linalg_norm v \<longrightarrow>
      Fatigue_score svd_equal_rows s
        = Inr (35/100, [(''dp'', 0), (''sc'', 1), (''cc'', 0)], ''fresh'')"
    unfolding assms(2)
  proof (intro impI, elim conjE)
    assume "2 \<le> n" and "0 < linalg_norm v"
    then show "Fatigue_score svd_equal_rows
        (foldl Fatigue_update (Fatigue_init 5) (replicate n v))
        = Inr (35/100, [(''dp'', 0), (''sc'', 1), (''cc'', 0)], ''fresh'')"
      by (rule Fatigue_score_repeated_exact)
  qed
  show ?thesis
    by (rule exI [of _ f], rule exI [of _ c]) (intro conjI sc f0 f1 dp cc th ex)
qed

theorem Fatigue_repeated_embedding_stays_fresh_witness:
  "\<exists>f c. Fatigue_score svd_equal_rows
            (foldl Fatigue_update (Fatigue_init 5) (replicate 5 [1, 0])) = Inr (f, c, ''fresh'')
     \<and> f \<le> 35/100
     \<and> speak_f_status f (fst (modulate_thresholds (PulseEstimator_init\<lparr>tau := 1\<rparr>)))
          (fst (snd (modulate_thresholds (PulseEstimator_init\<lparr>tau := 1\<rparr>)))) = ''fresh''"
proof -
  let ?s = "foldl Fatigue_update (Fatigue_init 5) (replicate 5 [1, 0])"
  let ?p = "PulseEstimator_init\<lparr>tau := 1\<rparr>"
  have t: "tau ?p \<le> 1" by simp
  from Fatigue_repeated_embedding_stays_fresh [OF svd_equal_rows_nonneg refl, of 5 "[1, 0]" ?p]
  obtain f c where a: "Fatigue_score svd_equal_rows ?s = Inr (f, c, ''fresh'')"
    and b: "f \<le> 35/100"
    and d: "tau ?p \<le> 1 \<longrightarrow>
      speak_f_status f (fst (modulate_thresholds ?p)) (fst (snd (modulate_thresholds ?p)))
        = ''fresh''"
    by (elim exE conjE)
  from d t have e: "speak_f_status f (fst (modulate_thresholds ?p))
      (fst (snd (modulate_thresholds ?p))) = ''fresh''" by (rule mp)
  show ?thesis
    by (rule exI [of _ f], rule exI [of _ c]) (intro conjI a b e)
qed

theorem Fatigue_repeated_embedding_counterexample:
  "Fatigue_score svd_equal_rows (foldl Fatigue_update (Fatigue_init 5) (replicate 1 [1, 0]))
     = Inr (0, [], ''fresh'')
   \<and> Fatigue_score svd_equal_rows (foldl Fatigue_update (Fatigue_init 5) (replicate 2 [1, 0]))
     = Inr (35/100, [(''dp'', 0), (''sc'', 1), (''cc'', 0)], ''fresh'')
   \<and> Fatigue_score svd_equal_rows (foldl Fatigue_update (Fatigue_init 5) (replicate 3 [1, 0]))
     = Inr (35/100, [(''dp'', 0), (''sc'', 1), (''cc'', 0)], ''fresh'')
   \<and> Fatigue_score svd_equal_rows (foldl Fatigue_update (Fatigue_init 5) (replicate 4 [1, 0]))
     = Inr (35/100, [(''dp'', 0), (''sc'', 1), (''cc'', 0)], ''fresh'')
   \<and> Fatigue_score svd_equal_rows (foldl Fatigue_update (Fatigue_init 5) (replicate 5 [1, 0]))
     = Inr (35/100, [(''dp'', 0), (''sc'', 1), (''cc'', 0)], ''fresh'')
   \<and> Fatigue_score svd_equal_rows (foldl Fatigue_update (Fatigue_init 5) (replicate 9 [1, 0]))
     = Inr (35/100, [(''dp'', 0), (''sc'', 1), (''cc'', 0)], ''fresh'')
   \<and> linalg_norm [1, 0] = 1"
proof -
  have n: "linalg_norm [1, 0] = 1" by (simp add: linalg_norm_def)
  then have p: "0 < linalg_norm [1, 0]" by simp
  have one: "Fatigue_score svd_equal_rows
      (foldl Fatigue_update (Fatigue_init 5) (replicate 1 [1, 0])) = Inr (0, [], ''fresh'')"
    by (simp add: Fatigue_score_def Fatigue_update_def Fatigue_init_def Let_def)
  show ?thesis
    by (intro conjI one n Fatigue_score_repeated_exact p) simp_all
qed

section \<open>The pulse stays between a half and the sigmoid of one\<close>

lemma cauchy_schwarz_step:
  fixes p q x y :: real
  assumes "0 \<le> p" and "0 \<le> q"
  shows "x * y + p * q \<le> sqrt (x * x + p * p) * sqrt (y * y + q * q)"
proof -
  have "(x * y + p * q)\<^sup>2 \<le> (x * x + p * p) * (y * y + q * q)"
  proof -
    have "(x * x + p * p) * (y * y + q * q) - (x * y + p * q)\<^sup>2 = (x * q - p * y)\<^sup>2"
      by (simp add: power2_eq_square algebra_simps)
    moreover have "0 \<le> (x * q - p * y)\<^sup>2" by simp
    ultimately show ?thesis by linarith
  qed
  then have "x * y + p * q \<le> sqrt ((x * x + p * p) * (y * y + q * q))"
    by (rule real_le_rsqrt)
  then show ?thesis by (simp only: real_sqrt_mult)
qed

lemma np_dot_le_norms: "np_dot a b \<le> linalg_norm a * linalg_norm b"
proof (induction a b rule: list_induct2')
  case 1
  show ?case by (simp add: np_dot_def linalg_norm_def)
next
  case (2 x xs)
  show ?case using linalg_norm_nonneg [of "x # xs"] by (simp add: np_dot_def linalg_norm_def)
next
  case (3 y ys)
  show ?case using linalg_norm_nonneg [of "y # ys"] by (simp add: np_dot_def linalg_norm_def)
next
  case (4 x xs y ys)
  let ?p = "linalg_norm xs" and ?q = "linalg_norm ys"
  have p: "?p * ?p = sum_list (map (\<lambda>x. x * x) xs)"
    unfolding linalg_norm_def using sum_squares_nonneg [of xs] by simp
  have q: "?q * ?q = sum_list (map (\<lambda>x. x * x) ys)"
    unfolding linalg_norm_def using sum_squares_nonneg [of ys] by simp
  have "np_dot (x # xs) (y # ys) = x * y + np_dot xs ys" by (simp add: np_dot_def)
  also have "\<dots> \<le> x * y + ?p * ?q" using 4 by simp
  also have "\<dots> \<le> sqrt (x * x + ?p * ?p) * sqrt (y * y + ?q * ?q)"
    by (rule cauchy_schwarz_step [OF linalg_norm_nonneg linalg_norm_nonneg])
  also have "\<dots> = linalg_norm (x # xs) * linalg_norm (y # ys)"
    by (simp only: p q) (simp add: linalg_norm_def)
  finally show ?case .
qed

lemma cosine_le_one:
  assumes "0 < linalg_norm a" and "0 < linalg_norm b"
  shows "np_dot a b / (linalg_norm a * linalg_norm b) \<le> 1"
proof -
  from assms have "0 < linalg_norm a * linalg_norm b" by simp
  with np_dot_le_norms [of a b] show ?thesis by simp
qed

lemma novelty_unit:
  assumes "0 < linalg_norm a" and "0 < linalg_norm b"
  shows "0 \<le> 1 - max 0 (np_dot a b / (linalg_norm a * linalg_norm b))
       \<and> 1 - max 0 (np_dot a b / (linalg_norm a * linalg_norm b)) \<le> 1"
  using cosine_le_one [OF assms] by simp

lemma exp_minus_one_lower: "103/280 \<le> exp (- 1 :: real)"
proof -
  from Maclaurin_exp_le [of "- 1" 8] obtain t :: real where
    e: "exp (- 1) = (\<Sum>m<8. ((- 1) ^ m) / fact m) + (exp t / fact 8) * (- 1) ^ 8"
    by blast
  have s: "(\<Sum>m<8. ((- 1 :: real) ^ m) / fact m) = 103/280"
    by (simp add: lessThan_nat_numeral lessThan_Suc fact_numeral)
  have "0 \<le> (exp t / fact 8) * (- 1) ^ 8" by simp
  with e s show ?thesis by linarith
qed

lemma sigmoid_bounds:
  assumes "0 \<le> z" and "z \<le> 1"
  shows "1/2 \<le> 1 / (1 + exp (- z)) \<and> 1 / (1 + exp (- z)) \<le> 1 / (1 + exp (- 1 :: real))"
proof
  from assms(1) have "1 + exp (- z) \<le> 2" by simp
  moreover have "0 < 2 * (1 + exp (- z))" by (simp add: add_pos_pos)
  ultimately show "1/2 \<le> 1 / (1 + exp (- z))" by (intro divide_left_mono) simp_all
  from assms(2) have "exp (- 1) \<le> exp (- z)" by simp
  moreover have "0 < exp (- 1 :: real)" by simp
  ultimately show "1 / (1 + exp (- z)) \<le> 1 / (1 + exp (- 1))"
    by (intro divide_left_mono) (simp_all add: add_pos_pos)
qed

lemma sigmoid_one_upper: "1 / (1 + exp (- 1 :: real)) \<le> 280/383"
proof -
  have "1 + 103/280 \<le> 1 + exp (- 1 :: real)" using exp_minus_one_lower by simp
  then have "1 / (1 + exp (- 1 :: real)) \<le> 1 / (1 + 103/280)"
    by (intro divide_left_mono) simp_all
  then show ?thesis by simp
qed

lemma py_round_half: "py_round (1/2) 4 = 1/2"
  by (simp add: py_round_def round_half_even_numeral)

lemma py_round_sigmoid_one: "py_round (280/383) 4 = 7311/10000"
proof -
  have "(280/383 :: real) * 10 ^ 4 = 2800000/383" by simp
  moreover have "\<lfloor>2800000/383 :: real\<rfloor> = 7310" by (simp add: floor_eq_iff)
  ultimately show ?thesis by (simp add: py_round_def round_half_even_def Let_def)
qed

lemma pulse_phi_L_unit:
  assumes "case last_time s of None \<Rightarrow> True | Some t0 \<Rightarrow> t0 \<le> t"
  shows "0 \<le> pulse_phi_L s t \<and> pulse_phi_L s t \<le> 1"
  using assms by (cases "last_time s") (simp_all add: pulse_phi_L_def)

lemma pulse_M_t_unit: "0 \<le> pulse_M_t msg \<and> pulse_M_t msg \<le> 1"
  by (simp add: pulse_M_t_def)

lemma pulse_N_t_unit: "0 \<le> pulse_N_t s emb \<and> pulse_N_t s emb \<le> 1"
proof (cases "last_user_emb s")
  case None
  then show ?thesis by (simp add: pulse_N_t_def)
next
  case (Some l)
  show ?thesis
  proof (cases "0 < linalg_norm emb \<and> 0 < linalg_norm l")
    case True
    then have "0 < linalg_norm emb" and "0 < linalg_norm l" by simp_all
    from novelty_unit [OF this] True Some show ?thesis
      by (simp add: pulse_N_t_def Let_def)
  next
    case False
    with Some show ?thesis by (auto simp: pulse_N_t_def Let_def)
  qed
qed

lemma pulse_D_t_unit: "0 \<le> pulse_D_t s emb \<and> pulse_D_t s emb \<le> 1"
proof (cases "prev_user_emb s")
  case None
  then show ?thesis by (simp add: pulse_D_t_def)
next
  case p: (Some p)
  show ?thesis
  proof (cases "last_user_emb s")
    case None
    with p show ?thesis by (simp add: pulse_D_t_def)
  next
    case l: (Some l)
    show ?thesis
    proof (cases "0 < linalg_norm (vsub l p) \<and> 0 < linalg_norm (vsub emb l)")
      case True
      then have "0 < linalg_norm (vsub l p)" and "0 < linalg_norm (vsub emb l)" by simp_all
      from novelty_unit [OF this] True p l show ?thesis
        by (simp add: pulse_D_t_def Let_def)
    next
      case False
      with p l show ?thesis by (auto simp: pulse_D_t_def Let_def)
    qed
  qed
qed

lemma pulse_z_unit:
  assumes "pulse_live s" and "case last_time s of None \<Rightarrow> True | Some t0 \<Rightarrow> t0 \<le> t"
  shows "0 \<le> pulse_z s msg emb t \<and> pulse_z s msg emb t \<le> 1"
proof -
  from assms(1) have w: "w_L s = 45/100" "w_M s = 15/100" "w_N s = 25/100" "w_D s = 15/100"
    by (simp_all add: pulse_live_def)
  from pulse_phi_L_unit [OF assms(2)] pulse_M_t_unit [of msg] pulse_N_t_unit [of s emb]
    pulse_D_t_unit [of s emb]
  show ?thesis unfolding pulse_z_def w by linarith
qed

lemma factors_unit_live:
  assumes "pulse_live s"
    and "case last_time s of None \<Rightarrow> True | Some t0 \<Rightarrow> t0 \<le> call_time (now, msg, emb, ts)"
  shows "factors_unit s (now, msg, emb, ts)"
proof -
  let ?t = "call_time (now, msg, emb, ts)"
  note z = pulse_z_unit [OF assms, of msg emb]
  from z have "0 \<le> pulse_z s msg emb ?t" and "pulse_z s msg emb ?t \<le> 1" by simp_all
  note sg = sigmoid_bounds [OF this]
  from pulse_phi_L_unit [OF assms(2)] pulse_M_t_unit [of msg] pulse_N_t_unit [of s emb]
    pulse_D_t_unit [of s emb] z sg
  show ?thesis by (simp add: factors_unit_def Let_def)
qed

lemma ema_bounds:
  fixes r t lo hi :: real
  assumes "lo \<le> r" and "r \<le> hi" and "lo \<le> t" and "t \<le> hi"
  shows "lo \<le> 7/10 * r + (1 - 7/10) * t \<and> 7/10 * r + (1 - 7/10) * t \<le> hi"
  using assms by simp

lemma PulseEstimator_update_live:
  assumes "pulse_live s"
    and "case last_time s of None \<Rightarrow> True | Some t0 \<Rightarrow> t0 \<le> call_time (now, msg, emb, ts)"
  shows "pulse_live (fst (PulseEstimator_update s now msg emb ts))
       \<and> last_time (fst (PulseEstimator_update s now msg emb ts))
           = Some (call_time (now, msg, emb, ts))
       \<and> 1/2 \<le> snd (PulseEstimator_update s now msg emb ts)
       \<and> snd (PulseEstimator_update s now msg emb ts) \<le> 7311/10000"
proof -
  let ?t = "call_time (now, msg, emb, ts)"
  let ?z = "pulse_z s msg emb ?t"
  let ?raw = "1 / (1 + exp (- ?z))"
  let ?U = "1 / (1 + exp (- 1 :: real))"
  let ?tau = "smoothing s * ?raw + (1 - smoothing s) * tau s"
  from assms(1) have sm: "smoothing s = 7/10" and t0: "1/2 \<le> tau s" and t1: "tau s \<le> ?U"
    and w: "w_L s = 45/100" "w_M s = 15/100" "w_N s = 25/100" "w_D s = 15/100"
    by (simp_all add: pulse_live_def)
  from pulse_z_unit [OF assms, of msg emb]
  have "0 \<le> ?z" and "?z \<le> 1" by simp_all
  from sigmoid_bounds [OF this] have r0: "1/2 \<le> ?raw" and r1: "?raw \<le> ?U" by simp_all
  from ema_bounds [OF r0 r1 t0 t1] have a: "1/2 \<le> ?tau" and b: "?tau \<le> ?U"
    unfolding sm by (rule conjunct1, rule conjunct2)
  have ct: "(case ts of None \<Rightarrow> now | Some t \<Rightarrow> t) = ?t" by (simp add: call_time_def)
  have st: "fst (PulseEstimator_update s now msg emb ts)
      = s\<lparr>tau := ?tau, prev_user_emb := last_user_emb s, last_user_emb := Some emb,
           last_time := Some ?t\<rparr>"
    and rv: "snd (PulseEstimator_update s now msg emb ts) = py_round ?tau 4"
    by (simp_all add: PulseEstimator_update_def Let_def ct)
  let ?s1 = "s\<lparr>tau := ?tau, prev_user_emb := last_user_emb s, last_user_emb := Some emb,
           last_time := Some ?t\<rparr>"
  have sel: "w_L ?s1 = w_L s" "w_M ?s1 = w_M s" "w_N ?s1 = w_N s" "w_D ?s1 = w_D s"
    "smoothing ?s1 = smoothing s" "tau ?s1 = ?tau" by simp_all
  have live: "pulse_live (fst (PulseEstimator_update s now msg emb ts))"
    unfolding st pulse_live_def sel by (intro conjI w sm a b)
  have lt: "last_time (fst (PulseEstimator_update s now msg emb ts)) = Some ?t"
    unfolding st by simp
  have "py_round (1/2) 4 \<le> py_round ?tau 4" by (rule py_round_mono [OF a])
  then have lo: "1/2 \<le> py_round ?tau 4" by (simp only: py_round_half)
  from b sigmoid_one_upper have "?tau \<le> 280/383" by (rule order_trans)
  then have "py_round ?tau 4 \<le> py_round (280/383) 4" by (rule py_round_mono)
  then have hi: "py_round ?tau 4 \<le> 7311/10000" by (simp only: py_round_sigmoid_one)
  from live lt lo hi show ?thesis by (simp only: rv simp_thms)
qed

lemma PulseEstimator_updates_live:
  assumes "pulse_live s" and "ordered_after (last_time s) cs"
  shows "every_step s cs
       \<and> pulse_live (fst (PulseEstimator_updates s cs))
       \<and> list_all (\<lambda>r. 1/2 \<le> r \<and> r \<le> 7311/10000) (snd (PulseEstimator_updates s cs))"
  using assms
proof (induction cs arbitrary: s)
  case Nil
  then show ?case by simp
next
  case (Cons c cs)
  obtain now msg emb ts where c: "c = (now, msg, emb, ts)" by (cases c)
  let ?s1 = "fst (PulseEstimator_update s now msg emb ts)"
  let ?r = "snd (PulseEstimator_update s now msg emb ts)"
  from Cons.prems(2) have o1: "case last_time s of None \<Rightarrow> True | Some t0 \<Rightarrow> t0 \<le> call_time (now, msg, emb, ts)"
    and o2: "ordered_after (Some (call_time (now, msg, emb, ts))) cs"
    by (simp_all add: c)
  note f = factors_unit_live [OF Cons.prems(1) o1]
  note u = PulseEstimator_update_live [OF Cons.prems(1) o1]
  from u have live: "pulse_live ?s1" and lt: "last_time ?s1 = Some (call_time (now, msg, emb, ts))"
    and r: "1/2 \<le> ?r \<and> ?r \<le> 7311/10000" by simp_all
  from o2 lt have "ordered_after (last_time ?s1) cs" by simp
  note ih = Cons.IH [OF live this]
  have up: "PulseEstimator_updates s (c # cs)
      = (fst (PulseEstimator_updates ?s1 cs), ?r # snd (PulseEstimator_updates ?s1 cs))"
    by (simp add: c split: prod.splits)
  from f ih r show ?case unfolding up by (simp add: c)
qed

lemma pulse_live_init: "pulse_live PulseEstimator_init"
proof -
  have "(1/2 :: real) \<le> 1 / (1 + exp (- 0))" by simp
  also have "\<dots> \<le> 1 / (1 + exp (- 1 :: real))"
    using sigmoid_bounds [of 0] by simp
  finally show ?thesis by (simp add: pulse_live_def PulseEstimator_init_def)
qed

lemma sum_list_lower:
  "list_all (\<lambda>x. c \<le> x) xs \<Longrightarrow> c * real (length xs) \<le> sum_list (xs :: real list)"
  by (induction xs) (simp_all add: algebra_simps)

lemma mean_tau_lower:
  assumes "samples \<noteq> []" and "list_all (\<lambda>x. 1/2 \<le> x) (map sm_tau_h samples)"
  shows "1/2 \<le> mean_tau samples"
proof -
  from sum_list_lower [OF assms(2)]
  have "1/2 * real (length samples) \<le> sum_list (map sm_tau_h samples)" by simp
  moreover from assms(1) have "0 < real (length samples)" by simp
  ultimately show ?thesis unfolding mean_tau_def by (simp add: pos_le_divide_eq)
qed

lemma live_samples_lower:
  assumes "live_samples rs samples" and "list_all (\<lambda>r. 1/2 \<le> r \<and> r \<le> 7311/10000) rs"
  shows "list_all (\<lambda>x. 1/2 \<le> x) (map sm_tau_h samples)"
proof -
  have "1/2 \<le> py_round r 4" if "1/2 \<le> r" for r
    using py_round_mono [OF that, of 4] by (simp only: py_round_half)
  with assms(2) have "list_all (\<lambda>x. 1/2 \<le> x) (map (\<lambda>t. py_round t 4) rs)"
    by (simp add: list_all_iff)
  with assms(1) show ?thesis by (simp add: live_samples_def)
qed

lemma dominant_rhythm_not_reflective:
  "4/10 \<le> mean_tau samples \<Longrightarrow> dominant_rhythm samples \<noteq> ''reflective''"
  by (simp add: dominant_rhythm_def)

lemma exp_minus_one_upper: "exp (- 1 :: real) \<le> 14833/40320"
proof -
  from Maclaurin_exp_le [of "- 1" 9] obtain t :: real where
    e: "exp (- 1) = (\<Sum>m<9. ((- 1) ^ m) / fact m) + (exp t / fact 9) * (- 1) ^ 9"
    by blast
  have s: "(\<Sum>m<9. ((- 1 :: real) ^ m) / fact m) = 14833/40320"
    by (simp add: lessThan_nat_numeral lessThan_Suc fact_numeral)
  have "(exp t / fact 9) * (- 1) ^ 9 \<le> 0" by simp
  with e s show ?thesis by linarith
qed

lemma sigmoid_one_lower: "731/1000 \<le> 1 / (1 + exp (- 1 :: real))"
proof -
  have "1 + exp (- 1 :: real) \<le> 1 + 14833/40320" using exp_minus_one_upper by simp
  moreover have "0 < (1 + 14833/40320) * (1 + exp (- 1 :: real))" by (simp add: add_pos_pos)
  ultimately have "1 / (1 + 14833/40320) \<le> 1 / (1 + exp (- 1 :: real))"
    by (intro divide_left_mono) simp_all
  then show ?thesis by simp
qed

text \<open>
  C6. From a new estimator and for calls in the order of their timestamps: at every
  call the four factors and their weighted sum \<open>z\<close> are between 0 and 1 and the raw
  pulse is between a half and the sigmoid of one, which is between 0.731 and 0.7311; the
  smoothed pulse stays between a half and the sigmoid of one, and every value returned,
  rounded to four decimals, between 0.5 and 0.7311. So the mean pulse of the samples of
  a session is at least a half and its dominant rhythm is never \<open>reflective\<close>.
\<close>

theorem PulseEstimator_tau_bounds:
  assumes "ordered_after None cs"
    and "PulseEstimator_updates PulseEstimator_init cs = (s, rs)"
  shows "every_step PulseEstimator_init cs
       \<and> 1/2 \<le> tau s \<and> tau s \<le> 1 / (1 + exp (- 1))
       \<and> 731/1000 \<le> 1 / (1 + exp (- 1 :: real)) \<and> 1 / (1 + exp (- 1 :: real)) \<le> 7311/10000
       \<and> list_all (\<lambda>r. 1/2 \<le> r \<and> r \<le> 7311/10000) rs
       \<and> (live_samples rs samples \<longrightarrow>
            (samples \<noteq> [] \<longrightarrow>
               1/2 \<le> mean_tau samples \<and> dominant_rhythm samples \<noteq> ''reflective'')
          \<and> (\<forall>sg. compute_signature samples = Full_signature sg
                 \<longrightarrow> sig_dominant_rhythm sg \<noteq> ''reflective''))"
proof -
  have o: "ordered_after (last_time PulseEstimator_init) cs"
    using assms(1) by (simp add: PulseEstimator_init_def)
  from PulseEstimator_updates_live [OF pulse_live_init o]
  have st: "every_step PulseEstimator_init cs" and live: "pulse_live s"
    and rs: "list_all (\<lambda>r. 1/2 \<le> r \<and> r \<le> 7311/10000) rs"
    by (simp_all add: assms(2))
  from live have t0: "1/2 \<le> tau s" and t1: "tau s \<le> 1 / (1 + exp (- 1))"
    by (simp_all add: pulse_live_def)
  have u: "1 / (1 + exp (- 1 :: real)) \<le> 7311/10000"
    using sigmoid_one_upper by simp
  have sm: "live_samples rs samples \<longrightarrow>
            (samples \<noteq> [] \<longrightarrow>
               1/2 \<le> mean_tau samples \<and> dominant_rhythm samples \<noteq> ''reflective'')
          \<and> (\<forall>sg. compute_signature samples = Full_signature sg
                 \<longrightarrow> sig_dominant_rhythm sg \<noteq> ''reflective'')"
  proof
    assume l: "live_samples rs samples"
    have a: "1/2 \<le> mean_tau samples \<and> dominant_rhythm samples \<noteq> ''reflective''"
      if ne: "samples \<noteq> []"
    proof -
      have m: "1/2 \<le> mean_tau samples"
        by (rule mean_tau_lower [OF ne live_samples_lower [OF l rs]])
      then have "4/10 \<le> mean_tau samples" by simp
      then have "dominant_rhythm samples \<noteq> ''reflective''"
        by (rule dominant_rhythm_not_reflective)
      with m show ?thesis by (rule conjI)
    qed
    have b: "sig_dominant_rhythm sg \<noteq> ''reflective''"
      if c: "compute_signature samples = Full_signature sg" for sg
    proof -
      from c have ne: "samples \<noteq> []" by (auto simp: compute_signature_def)
      with c have "sig_dominant_rhythm sg = dominant_rhythm samples"
        by (auto simp: compute_signature_def)
      with a [OF ne] show ?thesis by simp
    qed
    from a b show "(samples \<noteq> [] \<longrightarrow>
               1/2 \<le> mean_tau samples \<and> dominant_rhythm samples \<noteq> ''reflective'')
          \<and> (\<forall>sg. compute_signature samples = Full_signature sg
                 \<longrightarrow> sig_dominant_rhythm sg \<noteq> ''reflective'')"
      by blast
  qed
  from st t0 t1 sigmoid_one_lower u rs sm show ?thesis by (intro conjI)
qed

theorem PulseEstimator_tau_bounds_witness:
  "every_step PulseEstimator_init [(0, ''hello'', [1, 0], Some 0), (0, ''again'', [0, 1], Some 30)]
   \<and> 1/2 \<le> tau (fst (PulseEstimator_updates PulseEstimator_init
                 [(0, ''hello'', [1, 0], Some 0), (0, ''again'', [0, 1], Some 30)]))
   \<and> tau (fst (PulseEstimator_updates PulseEstimator_init
                 [(0, ''hello'', [1, 0], Some 0), (0, ''again'', [0, 1], Some 30)]))
       \<le> 7311/10000
   \<and> list_all (\<lambda>r. 1/2 \<le> r \<and> r \<le> 7311/10000)
        (snd (PulseEstimator_updates PulseEstimator_init
                 [(0, ''hello'', [1, 0], Some 0), (0, ''again'', [0, 1], Some 30)]))
   \<and> 1/2 \<le> mean_tau
        (map (\<lambda>t. \<lparr>sm_turn = 1, sm_ts = 0, sm_tau_h = py_round t 4, sm_fatigue = 0,
                    sm_fatigue_status = ''fresh'', sm_components = [], sm_thresholds = [],
                    sm_events = []\<rparr>)
           (snd (PulseEstimator_updates PulseEstimator_init
                 [(0, ''hello'', [1, 0], Some 0), (0, ''again'', [0, 1], Some 30)])))
   \<and> dominant_rhythm
        (map (\<lambda>t. \<lparr>sm_turn = 1, sm_ts = 0, sm_tau_h = py_round t 4, sm_fatigue = 0,
                    sm_fatigue_status = ''fresh'', sm_components = [], sm_thresholds = [],
                    sm_events = []\<rparr>)
           (snd (PulseEstimator_updates PulseEstimator_init
                 [(0, ''hello'', [1, 0], Some 0), (0, ''again'', [0, 1], Some 30)])))
       \<noteq> ''reflective''"
proof -
  let ?cs = "[(0, ''hello'', [1, 0], Some 0), (0, ''again'', [0, 1], Some 30)] :: pulse_call list"
  let ?s = "fst (PulseEstimator_updates PulseEstimator_init ?cs)"
  let ?rs = "snd (PulseEstimator_updates PulseEstimator_init ?cs)"
  let ?mk = "\<lambda>t. \<lparr>sm_turn = 1, sm_ts = 0, sm_tau_h = py_round t 4, sm_fatigue = 0,
                    sm_fatigue_status = ''fresh'', sm_components = [], sm_thresholds = [],
                    sm_events = []\<rparr>"
  have ord: "ordered_after None ?cs" by (simp add: call_time_def)
  have pr: "PulseEstimator_updates PulseEstimator_init ?cs = (?s, ?rs)" by (rule surjective_pairing)
  have len: "length ?rs = 2" by (simp add: split_beta Let_def)
  then have ne: "map ?mk ?rs \<noteq> []" by auto
  have lv: "live_samples ?rs (map ?mk ?rs)" by (simp add: live_samples_def comp_def)
  note t = PulseEstimator_tau_bounds [OF ord pr, of "map ?mk ?rs"]
  from t have a: "every_step PulseEstimator_init ?cs" and b: "1/2 \<le> tau ?s"
    and c: "tau ?s \<le> 1 / (1 + exp (- 1))"
    and d: "1 / (1 + exp (- 1 :: real)) \<le> 7311/10000"
    and e: "list_all (\<lambda>r. 1/2 \<le> r \<and> r \<le> 7311/10000) ?rs"
    and f: "live_samples ?rs (map ?mk ?rs) \<longrightarrow>
            (map ?mk ?rs \<noteq> [] \<longrightarrow>
               1/2 \<le> mean_tau (map ?mk ?rs) \<and> dominant_rhythm (map ?mk ?rs) \<noteq> ''reflective'')
          \<and> (\<forall>sg. compute_signature (map ?mk ?rs) = Full_signature sg
                 \<longrightarrow> sig_dominant_rhythm sg \<noteq> ''reflective'')"
    by blast+
  from c d have c': "tau ?s \<le> 7311/10000" by (rule order_trans)
  from f lv ne have g: "1/2 \<le> mean_tau (map ?mk ?rs)"
    and h: "dominant_rhythm (map ?mk ?rs) \<noteq> ''reflective''" by blast+
  from a b c' e g h show ?thesis by (intro conjI)
qed

end
